theory Spec2Isabelle
  imports Complex_Main "HOL-Library.Sublist"
begin

text \<open>
  A model of the calendar scripts: the ICS parser and field decoder of
  \<open>analyze_calendar.py\<close>, the duration accessor of \<open>CalendarEvent\<close>, the classifier
  of \<open>rerun_analysis_improved.py\<close>, and the aggregations of \<open>analyze_calendar.py\<close>
  and \<open>stakeholder_analysis.py\<close>, followed by the properties proved of them.
\<close>

section \<open>Python strings\<close>

text \<open>
  A Python \<open>str\<close> is a sequence of code points. The model uses HOL strings, so it
  covers the code points below 256; one \<open>char\<close> is one code point (not a UTF-8 byte).
  On these code points the character classes and the case mapping below are the ones
  of Python 3: \<open>str.isspace\<close>, the regular-expression classes \<open>\s\<close> and \<open>\d\<close>,
  and \<open>str.lower\<close>.
\<close>

definition is_digit :: "char \<Rightarrow> bool" where
  "is_digit c = (c \<in> set ''0123456789'')"

definition is_space :: "char \<Rightarrow> bool" where
  "is_space c = (c \<in> set [CHR 0x09, CHR 0x0A, CHR 0x0B, CHR 0x0C, CHR 0x0D,
                           CHR 0x1C, CHR 0x1D, CHR 0x1E, CHR 0x1F, CHR 0x20,
                           CHR 0x85, CHR 0xA0])"

definition upper_letters :: string where
  "upper_letters =
     ''ABCDEFGHIJKLMNOPQRSTUVWXYZ'' @
     [CHR 0xC0, CHR 0xC1, CHR 0xC2, CHR 0xC3, CHR 0xC4, CHR 0xC5,
      CHR 0xC6, CHR 0xC7, CHR 0xC8, CHR 0xC9, CHR 0xCA, CHR 0xCB,
      CHR 0xCC, CHR 0xCD, CHR 0xCE, CHR 0xCF, CHR 0xD0, CHR 0xD1,
      CHR 0xD2, CHR 0xD3, CHR 0xD4, CHR 0xD5, CHR 0xD6, CHR 0xD8,
      CHR 0xD9, CHR 0xDA, CHR 0xDB, CHR 0xDC, CHR 0xDD, CHR 0xDE]"

definition lower_letters :: string where
  "lower_letters =
     ''abcdefghijklmnopqrstuvwxyz'' @
     [CHR 0xE0, CHR 0xE1, CHR 0xE2, CHR 0xE3, CHR 0xE4, CHR 0xE5,
      CHR 0xE6, CHR 0xE7, CHR 0xE8, CHR 0xE9, CHR 0xEA, CHR 0xEB,
      CHR 0xEC, CHR 0xED, CHR 0xEE, CHR 0xEF, CHR 0xF0, CHR 0xF1,
      CHR 0xF2, CHR 0xF3, CHR 0xF4, CHR 0xF5, CHR 0xF6, CHR 0xF8,
      CHR 0xF9, CHR 0xFA, CHR 0xFB, CHR 0xFC, CHR 0xFD, CHR 0xFE]"

definition lower_char :: "char \<Rightarrow> char" where
  "lower_char c =
     (case map_of (zip upper_letters lower_letters) c of Some l \<Rightarrow> l | None \<Rightarrow> c)"

definition lower :: "string \<Rightarrow> string" where
  "lower s = map lower_char s"

text \<open>\<open>sub in s\<close>: substring test.\<close>

fun str_contains :: "string \<Rightarrow> string \<Rightarrow> bool" where
  "str_contains sub [] = (sub = [])"
| "str_contains sub (c # cs) = (prefix sub (c # cs) \<or> str_contains sub cs)"

text \<open>\<open>any(keyword in s for keyword in kws)\<close>.\<close>

definition any_keyword_in :: "string list \<Rightarrow> string \<Rightarrow> bool" where
  "any_keyword_in kws s = list_ex (\<lambda>k. str_contains k s) kws"

text \<open>\<open>s.split(sep)\<close> for a non-empty separator: the pieces between the
  non-overlapping occurrences of \<open>sep\<close>, found from the left.\<close>

function split_aux :: "string \<Rightarrow> string \<Rightarrow> string \<Rightarrow> string list" where
  "split_aux sep cur [] = [rev cur]"
| "split_aux sep cur (c # cs) =
     (if sep \<noteq> [] \<and> prefix sep (c # cs)
      then rev cur # split_aux sep [] (drop (length sep) (c # cs))
      else split_aux sep (c # cur) cs)"
  by pat_completeness auto
termination
  by (relation "measure (\<lambda>(sep, cur, s). length s)") (auto simp: neq_Nil_conv)

definition split_str :: "string \<Rightarrow> string \<Rightarrow> string list" where
  "split_str sep s = split_aux sep [] s"

text \<open>\<open>s.strip()\<close>, \<open>s.rstrip('\n\r')\<close>, \<open>s.startswith((' ', '\t'))\<close>,
  \<open>s.endswith('=')\<close>.\<close>

definition lstrip :: "string \<Rightarrow> string" where
  "lstrip s = dropWhile is_space s"

definition rstrip :: "string \<Rightarrow> string" where
  "rstrip s = rev (dropWhile is_space (rev s))"

definition strip :: "string \<Rightarrow> string" where
  "strip s = rstrip (lstrip s)"

definition rstrip_newlines :: "string \<Rightarrow> string" where
  "rstrip_newlines s = rev (dropWhile (\<lambda>c. c = CHR 0x0A \<or> c = CHR 0x0D) (rev s))"

definition starts_with_space_or_tab :: "string \<Rightarrow> bool" where
  "starts_with_space_or_tab s =
     (case s of [] \<Rightarrow> False | c # _ \<Rightarrow> c = CHR '' '' \<or> c = CHR 0x09)"

definition ends_with_equals :: "string \<Rightarrow> bool" where
  "ends_with_equals s = (s \<noteq> [] \<and> last s = CHR ''='')"

text \<open>
  \<open>re.search(prefix + '([' + cls + ']+)', s)\<close>: the leftmost position where
  \<open>prefix\<close> stands and is followed by at least one character of the class; the
  group is the longest run of class characters there. \<open>None\<close> is no match.
\<close>

fun re_search_group :: "string \<Rightarrow> (char \<Rightarrow> bool) \<Rightarrow> string \<Rightarrow> string option" where
  "re_search_group pre cls [] = None"
| "re_search_group pre cls (c # cs) =
     (if prefix pre (c # cs) \<and> takeWhile cls (drop (length pre) (c # cs)) \<noteq> []
      then Some (takeWhile cls (drop (length pre) (c # cs)))
      else re_search_group pre cls cs)"

section \<open>Timestamps\<close>

text \<open>
  \<open>re.search(r'(\d{8}T\d{6})', s)\<close>: the leftmost 15-character token made of
  eight digits, the letter T and six digits.
\<close>

definition token_at :: "string \<Rightarrow> bool" where
  "token_at s =
     (15 \<le> length s \<and> list_all is_digit (take 8 s) \<and> s ! 8 = CHR ''T''
      \<and> list_all is_digit (take 6 (drop 9 s)))"

fun search_token :: "string \<Rightarrow> string option" where
  "search_token [] = None"
| "search_token (c # cs) =
     (if token_at (c # cs) then Some (take 15 (c # cs)) else search_token cs)"

record datetime =
  dt_year :: nat
  dt_month :: nat
  dt_day :: nat
  dt_hour :: nat
  dt_minute :: nat
  dt_second :: nat

definition digit_val :: "char \<Rightarrow> nat" where
  "digit_val c = of_char c - 48"

definition digits_val :: "string \<Rightarrow> nat" where
  "digits_val s = foldl (\<lambda>n c. 10 * n + digit_val c) 0 s"

definition is_leap :: "nat \<Rightarrow> bool" where
  "is_leap y = (y mod 4 = 0 \<and> (y mod 100 \<noteq> 0 \<or> y mod 400 = 0))"

definition days_in_month :: "nat \<Rightarrow> nat \<Rightarrow> nat" where
  "days_in_month y m =
     (if m = 2 \<and> is_leap y then 29
      else [0, 31, 28, 31, 30, 31, 30, 31, 31, 30, 31, 30, 31] ! m)"

text \<open>
  \<open>datetime.strptime(tok, '%Y%m%dT%H%M%S')\<close> on a token found by the search above.
  With eight digits before the T and six after it, the format's fields can only be
  read as 4+2+2 and 2+2+2 digits; \<open>None\<close> stands for the \<open>ValueError\<close> raised when a
  field is out of range (year 0, month 00 or above 12, a day the month does not
  have, hour above 23, minute or second above 59). The function is only called on
  such tokens; on any other string the model gives \<open>None\<close>.
\<close>

definition strptime :: "string \<Rightarrow> datetime option" where
  "strptime s =
     (if \<not> token_at s \<or> length s \<noteq> 15 then None
      else
        let y = digits_val (take 4 s);
            m = digits_val (take 2 (drop 4 s));
            d = digits_val (take 2 (drop 6 s));
            hh = digits_val (take 2 (drop 9 s));
            mi = digits_val (take 2 (drop 11 s));
            ss = digits_val (take 2 (drop 13 s))
        in if y < 1 \<or> m < 1 \<or> 12 < m \<or> d < 1 \<or> days_in_month y m < d
              \<or> 23 < hh \<or> 59 < mi \<or> 59 < ss
           then None
           else Some \<lparr>dt_year = y, dt_month = m, dt_day = d,
                      dt_hour = hh, dt_minute = mi, dt_second = ss\<rparr>)"

text \<open>The proleptic Gregorian ordinal of a date (\<open>datetime.toordinal\<close>).\<close>

definition days_before_year :: "nat \<Rightarrow> int" where
  "days_before_year y =
     (let y1 = int y - 1 in y1 * 365 + y1 div 4 - y1 div 100 + y1 div 400)"

definition days_before_month :: "nat \<Rightarrow> nat \<Rightarrow> int" where
  "days_before_month y m =
     [0, 0, 31, 59, 90, 120, 151, 181, 212, 243, 273, 304, 334] ! m
     + (if 2 < m \<and> is_leap y then 1 else 0)"

definition toordinal :: "datetime \<Rightarrow> int" where
  "toordinal t =
     days_before_year (dt_year t) + days_before_month (dt_year t) (dt_month t)
     + int (dt_day t)"

definition seconds_of_day :: "datetime \<Rightarrow> int" where
  "seconds_of_day t = int (dt_second t) + int (dt_minute t) * 60 + int (dt_hour t) * 3600"

text \<open>\<open>(a - b).total_seconds()\<close> of two naive datetimes.\<close>

definition datetime_sub_seconds :: "datetime \<Rightarrow> datetime \<Rightarrow> int" where
  "datetime_sub_seconds a b =
     (toordinal a - toordinal b) * 86400 + (seconds_of_day a - seconds_of_day b)"

text \<open>\<open>a < b\<close> on datetimes: lexicographic on year, month, day, hour, minute,
  second.\<close>

definition datetime_less :: "datetime \<Rightarrow> datetime \<Rightarrow> bool" where
  "datetime_less a b =
     (dt_year a < dt_year b \<or> dt_year a = dt_year b \<and>
       (dt_month a < dt_month b \<or> dt_month a = dt_month b \<and>
         (dt_day a < dt_day b \<or> dt_day a = dt_day b \<and>
           (dt_hour a < dt_hour b \<or> dt_hour a = dt_hour b \<and>
             (dt_minute a < dt_minute b \<or> dt_minute a = dt_minute b \<and>
               dt_second a < dt_second b)))))"

section \<open>The event model\<close>

text \<open>
  \<open>CalendarEvent\<close> with the fields of the three scripts (\<open>organizer_name\<close> exists in
  \<open>stakeholder_analysis.py\<close> and \<open>rerun_analysis_improved.py\<close> only). The attendee
  dictionaries differ between the scripts, so the attendee type is a parameter.
\<close>

record 'a CalendarEvent =
  summary :: string
  dtstart :: string
  dtend :: string
  description :: string
  location :: string
  organizer :: string
  organizer_name :: string
  attendees :: "'a list"
  categories :: "string list"
  status :: string
  busy_status :: string
  transp :: string
  created :: string
  uid :: string
  is_recurring :: bool
  recurrence_id :: string

definition new_CalendarEvent :: "'a CalendarEvent" where
  "new_CalendarEvent =
     \<lparr>summary = [], dtstart = [], dtend = [], description = [], location = [],
      organizer = [], organizer_name = [], attendees = [], categories = [],
      status = [], busy_status = [], transp = [], created = [], uid = [],
      is_recurring = False, recurrence_id = []\<rparr>"

text \<open>
  \<open>get_duration_hours\<close>. Hours are exact rationals here (the source divides the
  whole number of seconds by 3600 in floating point). Every exception is caught by
  the source's \<open>except Exception\<close>, so the \<open>None\<close> of \<open>strptime\<close> becomes the
  result \<open>0\<close>.
\<close>

definition strip_tzid :: "string \<Rightarrow> string" where
  "strip_tzid s = (if str_contains ''TZID='' s then last (split_str ''TZID='' s) else s)"

definition get_duration_hours :: "'a CalendarEvent \<Rightarrow> rat" where
  "get_duration_hours e =
     (let start_str = strip_tzid (dtstart e);
          end_str = strip_tzid (dtend e);
          start_match = search_token start_str;
          end_match = search_token end_str
      in case start_match of
           None \<Rightarrow> 0
         | Some sm \<Rightarrow>
            (case end_match of
               None \<Rightarrow> 0
             | Some em \<Rightarrow>
                (case strptime sm of
                   None \<Rightarrow> 0
                 | Some start \<Rightarrow>
                    (case strptime em of
                       None \<Rightarrow> 0
                     | Some end \<Rightarrow> of_int (datetime_sub_seconds end start) / 3600))))"

section \<open>The field decoder of \<open>analyze_calendar.py\<close>\<close>

text \<open>
  An attendee dictionary of \<open>analyze_calendar.py\<close>: the key \<open>email\<close> is always
  there, the key \<open>status\<close> only when the field carried a \<open>PARTSTAT=\<close> parameter.
\<close>

record attendee_info =
  att_email :: string
  att_status :: "string option"

type_synonym event = "attendee_info CalendarEvent"

text \<open>The two regular expressions \<open>mailto:([^\s]+)\<close> and \<open>PARTSTAT=([^;:]+)\<close>.\<close>

definition search_mailto :: "string \<Rightarrow> string option" where
  "search_mailto v = re_search_group ''mailto:'' (\<lambda>c. \<not> is_space c) v"

definition search_partstat :: "string \<Rightarrow> string option" where
  "search_partstat f =
     re_search_group ''PARTSTAT='' (\<lambda>c. c \<noteq> CHR '';'' \<and> c \<noteq> CHR '':'') f"

text \<open>\<open>value.encode('ascii', 'ignore').decode('ascii')\<close>: the code points below 128.\<close>

definition ascii_only :: "string \<Rightarrow> string" where
  "ascii_only v = filter (\<lambda>c. (of_char c :: nat) < 128) v"

text \<open>\<open>field.split(';')[0]\<close>.\<close>

definition field_name_of :: "string \<Rightarrow> string" where
  "field_name_of field = takeWhile (\<lambda>c. c \<noteq> CHR '';'') field"

definition process_attendee :: "event \<Rightarrow> string \<Rightarrow> string \<Rightarrow> event" where
  "process_attendee ev field v =
     (let partstat_match = search_partstat field;
          email_match = search_mailto v;
          ev1 = (if str_contains ''daniel.moreira@autodesk.com'' (lower v)
                 then (case partstat_match of
                         Some p \<Rightarrow> ev\<lparr>status := p\<rparr>
                       | None \<Rightarrow> ev)
                 else ev)
      in case email_match of
           Some em \<Rightarrow>
             ev1\<lparr>attendees := attendees ev1 @ [\<lparr>att_email = em, att_status = partstat_match\<rparr>]\<rparr>
         | None \<Rightarrow> ev1)"

definition process_field :: "event \<Rightarrow> string \<Rightarrow> string \<Rightarrow> event" where
  "process_field ev field v =
     (let field_name = field_name_of field
      in if field_name = ''SUMMARY'' then ev\<lparr>summary := ascii_only v\<rparr>
         else if field_name = ''DTSTART'' then ev\<lparr>dtstart := field @ '':'' @ v\<rparr>
         else if field_name = ''DTEND'' then ev\<lparr>dtend := field @ '':'' @ v\<rparr>
         else if field_name = ''DESCRIPTION'' then ev\<lparr>description := take 500 v\<rparr>
         else if field_name = ''LOCATION'' then ev\<lparr>location := v\<rparr>
         else if field_name = ''ORGANIZER'' then
           (case search_mailto v of
              Some em \<Rightarrow> ev\<lparr>organizer := em\<rparr>
            | None \<Rightarrow> ev)
         else if field_name = ''ATTENDEE'' then process_attendee ev field v
         else if field_name = ''CATEGORIES'' then
           ev\<lparr>categories := map strip (split_str '','' v)\<rparr>
         else if field_name = ''X-MICROSOFT-CDO-BUSYSTATUS'' then ev\<lparr>busy_status := v\<rparr>
         else if field_name = ''TRANSP'' then ev\<lparr>transp := v\<rparr>
         else if field_name = ''CREATED'' then ev\<lparr>created := v\<rparr>
         else if field_name = ''UID'' then ev\<lparr>uid := v\<rparr>
         else if field_name = ''RRULE'' then ev\<lparr>is_recurring := True\<rparr>
         else if field_name = ''RECURRENCE-ID'' then ev\<lparr>recurrence_id := v\<rparr>
         else ev)"

text \<open>
  \<open>process_field\<close> receives the parser's \<open>current_event\<close>, which may be \<open>None\<close>.
  A branch that writes an attribute of the event then raises \<open>AttributeError\<close>; the
  branches that write nothing (an unknown field name, an \<open>ORGANIZER\<close> or \<open>ATTENDEE\<close>
  whose patterns do not match) return normally.
\<close>

datatype py_error = AttributeError | ZeroDivisionError

definition writes_event :: "string \<Rightarrow> string \<Rightarrow> bool" where
  "writes_event field v =
     (let field_name = field_name_of field
      in if field_name = ''ORGANIZER'' then search_mailto v \<noteq> None
         else if field_name = ''ATTENDEE'' then
           (str_contains ''daniel.moreira@autodesk.com'' (lower v)
              \<and> search_partstat field \<noteq> None)
           \<or> search_mailto v \<noteq> None
         else field_name \<in> set [''SUMMARY'', ''DTSTART'', ''DTEND'', ''DESCRIPTION'',
                ''LOCATION'', ''CATEGORIES'', ''X-MICROSOFT-CDO-BUSYSTATUS'', ''TRANSP'',
                ''CREATED'', ''UID'', ''RRULE'', ''RECURRENCE-ID''])"

definition process_field_opt ::
  "event option \<Rightarrow> string \<Rightarrow> string \<Rightarrow> py_error + event option" where
  "process_field_opt cur field v =
     (case cur of
        Some ev \<Rightarrow> Inr (Some (process_field ev field v))
      | None \<Rightarrow> if writes_event field v then Inl AttributeError else Inr None)"

section \<open>The parser\<close>

text \<open>
  The loop state of \<open>parse_ics_file\<close>. \<open>current_field\<close> is \<open>None\<close> or a string; the
  source tests it for truth, and the empty string is false as \<open>None\<close> is.
\<close>

record parser_state =
  events :: "event list"
  current_event :: "event option"
  current_field :: "string option"
  continuation_value :: string

definition initial_state :: parser_state where
  "initial_state =
     \<lparr>events = [], current_event = None, current_field = None, continuation_value = []\<rparr>"

definition field_pending :: "parser_state \<Rightarrow> bool" where
  "field_pending st =
     (case current_field st of None \<Rightarrow> False | Some f \<Rightarrow> f \<noteq> [])"

text \<open>\<open>if current_field and continuation_value: process_field(...)\<close>.\<close>

definition flush_field :: "parser_state \<Rightarrow> py_error + parser_state" where
  "flush_field st =
     (if field_pending st \<and> continuation_value st \<noteq> [] then
        (case current_field st of
           None \<Rightarrow> Inr st
         | Some f \<Rightarrow>
            (case process_field_opt (current_event st) f (continuation_value st) of
               Inl err \<Rightarrow> Inl err
             | Inr cur \<Rightarrow>
                 Inr (st\<lparr>current_event := cur, current_field := None,
                         continuation_value := []\<rparr>)))
      else Inr st)"

text \<open>The three-way branch on a line that is not a continuation.\<close>

definition dispatch_line :: "parser_state \<Rightarrow> string \<Rightarrow> parser_state" where
  "dispatch_line st line =
     (if line = ''BEGIN:VEVENT'' then st\<lparr>current_event := Some new_CalendarEvent\<rparr>
      else
        (case current_event st of
           None \<Rightarrow> st
         | Some ev \<Rightarrow>
             if line = ''END:VEVENT''
             then st\<lparr>events := events st @ [ev], current_event := None\<rparr>
             else if CHR '':'' \<in> set line then
               (let field = takeWhile (\<lambda>c. c \<noteq> CHR '':'') line;
                    v = tl (dropWhile (\<lambda>c. c \<noteq> CHR '':'') line)
                in if \<not> ends_with_equals line
                   then st\<lparr>current_event := Some (process_field ev field v),
                           current_field := None\<rparr>
                   else st\<lparr>current_field := Some field, continuation_value := v\<rparr>)
             else st))"

text \<open>The body of the loop, on a line already stripped of its terminators.\<close>

definition handle_line :: "parser_state \<Rightarrow> string \<Rightarrow> py_error + parser_state" where
  "handle_line st line =
     (if starts_with_space_or_tab line \<and> field_pending st
      then Inr (st\<lparr>continuation_value := continuation_value st @ strip line\<rparr>)
      else (case flush_field st of
              Inl err \<Rightarrow> Inl err
            | Inr st1 \<Rightarrow> Inr (dispatch_line st1 line)))"

text \<open>One iteration of the loop, on a line as the file iterator yields it.\<close>

definition parse_line :: "parser_state \<Rightarrow> string \<Rightarrow> py_error + parser_state" where
  "parse_line st raw = handle_line st (rstrip_newlines raw)"

fun parse_lines :: "parser_state \<Rightarrow> string list \<Rightarrow> py_error + parser_state" where
  "parse_lines st [] = Inr st"
| "parse_lines st (l # ls) =
     (case parse_line st l of
        Inl err \<Rightarrow> Inl err
      | Inr st1 \<Rightarrow> parse_lines st1 ls)"

text \<open>
  \<open>parse_ics_file\<close>. The source iterates over the opened file; the model takes the
  sequence of lines that the iteration yields, each with its terminator if it has
  one. Opening and decoding the file are not part of the model.
\<close>

definition parse_ics_file :: "string list \<Rightarrow> py_error + event list" where
  "parse_ics_file ls =
     (case parse_lines initial_state ls of
        Inl err \<Rightarrow> Inl err
      | Inr st \<Rightarrow> Inr (events st))"

section \<open>The classifier of \<open>rerun_analysis_improved.py\<close>\<close>

text \<open>\<open>any(keyword in a or keyword in b for keyword in kws)\<close>.\<close>

definition any_keyword_in2 :: "string list \<Rightarrow> string \<Rightarrow> string \<Rightarrow> bool" where
  "any_keyword_in2 kws a b = list_ex (\<lambda>k. str_contains k a \<or> str_contains k b) kws"

definition is_actual_meeting :: "'a CalendarEvent \<Rightarrow> bool" where
  "is_actual_meeting e = (length (attendees e) > 0)"

definition categorize_event_final :: "'a CalendarEvent \<Rightarrow> string" where
  "categorize_event_final e =
     (let summary_lower = lower (summary e);
          desc_lower = lower (description e)
      in if \<not> is_actual_meeting e then ''non_meetings_excluded''
         else if status e \<in> set [''DECLINED'', ''TENTATIVE'']
           then ''declined_tentative_'' @ lower (status e)
         else if busy_status e = ''OOF'' then ''out_of_office''
         else if any_keyword_in
                   [''out of office'', ''ooo'', ''pto'', ''vacation'', ''holiday'']
                   summary_lower
           then ''personal_time_off''
         else if str_contains ''focus friday'' summary_lower
                 \<or> str_contains ''focus fridays'' summary_lower
           then ''focus_fridays_excluded''
         else if any_keyword_in
                   [''laptop'', ''new laptop'', ''it support'', ''setup'',
                    ''infoworks icm cloud'']
                   summary_lower
           then ''work_admin_it''
         else if any_keyword_in [''dentist'', ''doctor'', ''personal bookings'']
                   summary_lower
                 \<and> \<not> any_keyword_in [''customer'', ''client''] summary_lower
           then ''personal_appointments_excluded''
         else if any_keyword_in [''lunch'', ''breakfast''] summary_lower
           then (if any_keyword_in2
                      [''customer'', ''client'', ''dinner'', ''reception'', ''networking'',
                       ''team'', ''cs dinner'', ''ebcs'', ''awi'']
                      summary_lower desc_lower
                 then ''business_meals_networking''
                 else ''breaks_personal_excluded'')
         else if any_keyword_in [''gym'', ''workout'', ''exercise''] summary_lower
           then ''breaks_personal_excluded''
         else if transp e = ''TRANSPARENT'' \<or> busy_status e = ''FREE''
           then ''free_time_transparent_excluded''
         else if any_keyword_in2
                   [''customer'', ''client'', ''external'', ''demo'', ''presentation'',
                    ''sales'', ''prospect'', ''dinner'', ''reception'']
                   summary_lower desc_lower
           then ''customer_external''
         else if any_keyword_in
                   [''1:1'', ''one on one'', ''1-1'', ''sync'', ''catch up'', ''check in'']
                   summary_lower
           then ''internal_meetings_1on1_sync''
         else if any_keyword_in
                   [''training'', ''workshop'', ''learning'', ''course'', ''webinar'',
                    ''certification'', ''onboarding'']
                   summary_lower
           then ''training_learning''
         else if any_keyword_in
                   [''planning'', ''roadmap'', ''strategy'', ''review'', ''retrospective'',
                    ''sprint'', ''scrum'', ''project'', ''initiative'', ''backlog'',
                    ''refinement'']
                   summary_lower
           then ''planning_strategy''
         else if any_keyword_in
                   [''interview'', ''candidate'', ''hiring'', ''recruiting'', ''screening'']
                   summary_lower
           then ''recruiting_hiring''
         else if any_keyword_in
                   [''focus time'', ''blocked'', ''do not book'', ''dnb'', ''heads down'',
                    ''deep work'', ''no meetings'']
                   summary_lower
                 \<and> \<not> str_contains ''friday'' summary_lower
           then ''focus_time_blocked''
         else if busy_status e = ''BUSY'' \<or> transp e = ''OPAQUE''
           then ''general_work_meetings''
         else ''uncategorized'')"

definition excluded_categories :: "string list" where
  "excluded_categories =
     [''declined_tentative_declined'', ''declined_tentative_tentative'',
      ''out_of_office'', ''personal_time_off'', ''breaks_personal_excluded'',
      ''free_time_transparent_excluded'', ''focus_fridays_excluded'',
      ''personal_appointments_excluded'', ''non_meetings_excluded'']"

definition is_work_relevant_final :: "string \<Rightarrow> bool" where
  "is_work_relevant_final category = (category \<notin> set excluded_categories)"

text \<open>
  The labels that \<open>categorize_event_final\<close> can return: the nine excluded ones and the
  ten work categories.
\<close>

definition work_categories :: "string list" where
  "work_categories =
     [''work_admin_it'', ''business_meals_networking'', ''customer_external'',
      ''internal_meetings_1on1_sync'', ''training_learning'', ''planning_strategy'',
      ''recruiting_hiring'', ''focus_time_blocked'', ''general_work_meetings'',
      ''uncategorized'']"

definition all_categories :: "string list" where
  "all_categories = excluded_categories @ work_categories"

section \<open>The aggregator of \<open>analyze_calendar.py\<close>\<close>







definition get_num :: "('k \<rightharpoonup> 'n::zero) \<Rightarrow> 'k \<Rightarrow> 'n" where
  "get_num m k = (case m k of None \<Rightarrow> 0 | Some x \<Rightarrow> x)"

definition add_one :: "(string \<rightharpoonup> nat) \<Rightarrow> string \<Rightarrow> (string \<rightharpoonup> nat)" where
  "add_one table key = table(key \<mapsto> get_num table key + 1)"







section \<open>Stakeholders and companies (\<open>stakeholder_analysis.py\<close>)\<close>

text \<open>An attendee dictionary of \<open>stakeholder_analysis.py\<close>: all three keys are
  always there.\<close>

record stakeholder_attendee =
  email :: string
  name :: string
  pstatus :: string

definition is_work_relevant :: "'a CalendarEvent \<Rightarrow> bool" where
  "is_work_relevant e =
     (let summary_lower = lower (summary e)
      in if length (attendees e) = 0 then False
         else if status e \<in> set [''DECLINED'', ''TENTATIVE''] then False
         else if busy_status e = ''OOF'' then False
         else if any_keyword_in
                   [''out of office'', ''ooo'', ''pto'', ''vacation'', ''holiday'',
                    ''personal'', ''dentist'', ''doctor'']
                   summary_lower
           then False
         else if str_contains ''focus friday'' summary_lower
                 \<or> str_contains ''focus fridays'' summary_lower
           then False
         else if any_keyword_in [''lunch'', ''breakfast'', ''gym'', ''workout''] summary_lower
                 \<and> \<not> any_keyword_in [''customer'', ''client'', ''meeting''] summary_lower
           then False
         else if transp e = ''TRANSPARENT'' \<or> busy_status e = ''FREE'' then False
         else True)"

text \<open>
  \<open>str.title\<close>: a cased character is title-cased at the start of a run of cased
  characters and lower-cased inside it. U+00B5 and U+00FF, whose title-case forms lie
  beyond code point 255, are kept as they are.
\<close>

definition is_cased :: "char \<Rightarrow> bool" where
  "is_cased c =
     (c \<in> set (upper_letters @ lower_letters
                @ [CHR 0xAA, CHR 0xB5, CHR 0xBA, CHR 0xDF, CHR 0xFF]))"

definition title_char :: "char \<Rightarrow> string" where
  "title_char c =
     (if c = CHR 0xDF then ''Ss''
      else case map_of (zip lower_letters upper_letters) c of
             Some u \<Rightarrow> [u]
           | None \<Rightarrow> [c])"

fun title_aux :: "bool \<Rightarrow> string \<Rightarrow> string" where
  "title_aux previous_is_cased [] = []"
| "title_aux previous_is_cased (c # cs) =
     (if is_cased c
      then (if previous_is_cased then [lower_char c] else title_char c) @ title_aux True cs
      else c # title_aux False cs)"

definition title :: "string \<Rightarrow> string" where
  "title s = title_aux False s"

definition extract_company_from_email :: "string \<Rightarrow> string" where
  "extract_company_from_email em =
     (if em = [] \<or> CHR ''@'' \<notin> set em then ''Unknown''
      else
        let domain = lower (split_str ''@'' em ! 1)
        in if str_contains ''autodesk'' domain then ''Autodesk (Internal)''
           else if domain \<in> set [''gmail.com'', ''outlook.com'', ''hotmail.com'', ''yahoo.com'']
             then ''Personal Email''
           else title (hd (split_str ''.'' domain)))"

definition categorize_meeting_type :: "'a CalendarEvent \<Rightarrow> string" where
  "categorize_meeting_type e =
     (let summary_lower = lower (summary e);
          desc_lower = lower (description e)
      in if any_keyword_in
              [''1:1'', ''one on one'', ''1-1'', ''sync'', ''catch up'', ''check in'']
              summary_lower
           then ''1:1 & Syncs''
         else if any_keyword_in2
                   [''customer'', ''client'', ''external'', ''demo'', ''presentation'']
                   summary_lower desc_lower
           then ''Customer/External''
         else if any_keyword_in
                   [''team meeting'', ''standup'', ''stand-up'', ''all hands'', ''town hall'']
                   summary_lower
           then ''Team Meetings''
         else if any_keyword_in
                   [''training'', ''workshop'', ''learning'', ''course'', ''webinar'']
                   summary_lower
           then ''Training/Learning''
         else if any_keyword_in
                   [''planning'', ''roadmap'', ''strategy'', ''review'', ''retrospective'',
                    ''sprint'']
                   summary_lower
           then ''Planning/Strategy''
         else if any_keyword_in [''focus'', ''blocked'', ''do not book'', ''heads down'']
                   summary_lower
           then ''Focus Time''
         else ''General Meetings'')"

text \<open>
  One record of \<open>stakeholder_meetings\<close>. The set \<open>months_active\<close> and the separate
  \<open>organizer_stats\<close> table are left out: they are written beside the fields below and
  read by none of them.
\<close>

record stakeholder =
  meetings :: nat
  hours :: rat
  as_organizer :: nat
  as_attendee :: nat
  companies :: "string set"
  meeting_types :: "string \<rightharpoonup> nat"

definition new_stakeholder :: stakeholder where
  "new_stakeholder =
     \<lparr>meetings = 0, hours = 0, as_organizer = 0, as_attendee = 0, companies = {},
      meeting_types = Map.empty\<rparr>"

text \<open>\<open>'daniel.moreira' in email.lower()\<close>, the test behind \<open># Skip self\<close>.\<close>

definition is_self :: "stakeholder_attendee \<Rightarrow> bool" where
  "is_self a = str_contains ''daniel.moreira'' (lower (email a))"

definition stakeholder_key :: "stakeholder_attendee \<Rightarrow> string" where
  "stakeholder_key a = (if name a \<noteq> [] then name a else email a)"

definition track_attendee ::
  "stakeholder_attendee CalendarEvent \<Rightarrow> (string \<rightharpoonup> stakeholder) \<Rightarrow> stakeholder_attendee
     \<Rightarrow> (string \<rightharpoonup> stakeholder)" where
  "track_attendee e m a =
     (if is_self a then m
      else
        let key = stakeholder_key a;
            company = extract_company_from_email (email a);
            r = (case m key of None \<Rightarrow> new_stakeholder | Some r \<Rightarrow> r);
            me = (organizer e = ''daniel.moreira@autodesk.com'')
        in m(key \<mapsto>
             r\<lparr>meetings := meetings r + 1,
               hours := hours r + get_duration_hours e,
               companies := insert company (companies r),
               meeting_types := add_one (meeting_types r) (categorize_meeting_type e),
               as_organizer := (if me then as_organizer r + 1 else as_organizer r),
               as_attendee := (if me then as_attendee r else as_attendee r + 1)\<rparr>))"

definition track_event ::
  "(string \<rightharpoonup> stakeholder) \<Rightarrow> stakeholder_attendee CalendarEvent
     \<Rightarrow> (string \<rightharpoonup> stakeholder)" where
  "track_event m e = foldl (track_attendee e) m (attendees e)"

record stakeholder_data =
  stakeholders :: "string \<rightharpoonup> stakeholder"
  work_events :: "stakeholder_attendee CalendarEvent list"

definition analyze_stakeholders ::
  "stakeholder_attendee CalendarEvent list \<Rightarrow> stakeholder_data" where
  "analyze_stakeholders evs =
     (let work = filter is_work_relevant evs
      in \<lparr>stakeholders = foldl track_event Map.empty work, work_events = work\<rparr>)"

text \<open>
  The by-company part of \<open>analyze_time_patterns\<close>. \<open>companies\<close> is a Python set; the
  model lists its distinct members in order of first appearance (each member is
  visited once and writes its own key, so the order of the visit does not matter).
  The division raises \<open>ZeroDivisionError\<close> on a zero divisor. The other tables of
  \<open>analyze_time_patterns\<close> are separate accumulators and are left out.
\<close>

record bucket =
  bucket_count :: nat
  bucket_hours :: rat

definition new_bucket :: bucket where
  "new_bucket = \<lparr>bucket_count = 0, bucket_hours = 0\<rparr>"

definition py_div :: "rat \<Rightarrow> nat \<Rightarrow> py_error + rat" where
  "py_div x n = (if n = 0 then Inl ZeroDivisionError else Inr (x / of_nat n))"

definition event_companies :: "stakeholder_attendee CalendarEvent \<Rightarrow> string list" where
  "event_companies e = remdups (map (\<lambda>a. extract_company_from_email (email a)) (attendees e))"

definition add_company ::
  "rat \<Rightarrow> nat \<Rightarrow> (string \<rightharpoonup> bucket) \<Rightarrow> string \<Rightarrow> py_error + (string \<rightharpoonup> bucket)" where
  "add_company duration n m company =
     (case py_div duration n of
        Inl err \<Rightarrow> Inl err
      | Inr share \<Rightarrow>
          (let b = (case m company of None \<Rightarrow> new_bucket | Some b \<Rightarrow> b)
           in Inr (m(company \<mapsto> b\<lparr>bucket_count := bucket_count b + 1,
                                   bucket_hours := bucket_hours b + share\<rparr>))))"

fun add_companies ::
  "rat \<Rightarrow> nat \<Rightarrow> (string \<rightharpoonup> bucket) \<Rightarrow> string list \<Rightarrow> py_error + (string \<rightharpoonup> bucket)" where
  "add_companies duration n m [] = Inr m"
| "add_companies duration n m (c # cs) =
     (case add_company duration n m c of
        Inl err \<Rightarrow> Inl err
      | Inr m1 \<Rightarrow> add_companies duration n m1 cs)"

definition by_company_event ::
  "(string \<rightharpoonup> bucket) \<Rightarrow> stakeholder_attendee CalendarEvent
     \<Rightarrow> py_error + (string \<rightharpoonup> bucket)" where
  "by_company_event m e =
     (let cs = event_companies e
      in add_companies (get_duration_hours e) (length cs) m cs)"

fun by_company_events ::
  "(string \<rightharpoonup> bucket) \<Rightarrow> stakeholder_attendee CalendarEvent list
     \<Rightarrow> py_error + (string \<rightharpoonup> bucket)" where
  "by_company_events m [] = Inr m"
| "by_company_events m (e # es) =
     (case by_company_event m e of
        Inl err \<Rightarrow> Inl err
      | Inr m1 \<Rightarrow> by_company_events m1 es)"

definition analyze_time_patterns_by_company ::
  "stakeholder_attendee CalendarEvent list \<Rightarrow> py_error + (string \<rightharpoonup> bucket)" where
  "analyze_time_patterns_by_company evs =
     by_company_events Map.empty (filter is_work_relevant evs)"

section \<open>Notions used to state the properties\<close>

text \<open>
  The classifier as an ordered rule table: each entry pairs the condition of one
  branch of \<open>categorize_event_final\<close>, in the order of the source, with the label
  that branch returns; the first entry whose condition holds gives the label.
\<close>

fun first_match :: "(bool \<times> string) list \<Rightarrow> string \<Rightarrow> string" where
  "first_match [] dflt = dflt"
| "first_match ((c, l) # rs) dflt = (if c then l else first_match rs dflt)"

definition classification_rules :: "'a CalendarEvent \<Rightarrow> (bool \<times> string) list" where
  "classification_rules e =
     (let s = lower (summary e); d = lower (description e)
      in [(\<not> is_actual_meeting e, ''non_meetings_excluded''),
          (status e = ''DECLINED'', ''declined_tentative_declined''),
          (status e = ''TENTATIVE'', ''declined_tentative_tentative''),
          (busy_status e = ''OOF'', ''out_of_office''),
          (any_keyword_in [''out of office'', ''ooo'', ''pto'', ''vacation'', ''holiday''] s,
           ''personal_time_off''),
          (str_contains ''focus friday'' s \<or> str_contains ''focus fridays'' s,
           ''focus_fridays_excluded''),
          (any_keyword_in
             [''laptop'', ''new laptop'', ''it support'', ''setup'', ''infoworks icm cloud''] s,
           ''work_admin_it''),
          (any_keyword_in [''dentist'', ''doctor'', ''personal bookings''] s
             \<and> \<not> any_keyword_in [''customer'', ''client''] s,
           ''personal_appointments_excluded''),
          (any_keyword_in [''lunch'', ''breakfast''] s
             \<and> any_keyword_in2
                 [''customer'', ''client'', ''dinner'', ''reception'', ''networking'',
                  ''team'', ''cs dinner'', ''ebcs'', ''awi''] s d,
           ''business_meals_networking''),
          (any_keyword_in [''lunch'', ''breakfast''] s, ''breaks_personal_excluded''),
          (any_keyword_in [''gym'', ''workout'', ''exercise''] s, ''breaks_personal_excluded''),
          (transp e = ''TRANSPARENT'' \<or> busy_status e = ''FREE'',
           ''free_time_transparent_excluded''),
          (any_keyword_in2
             [''customer'', ''client'', ''external'', ''demo'', ''presentation'',
              ''sales'', ''prospect'', ''dinner'', ''reception''] s d,
           ''customer_external''),
          (any_keyword_in
             [''1:1'', ''one on one'', ''1-1'', ''sync'', ''catch up'', ''check in''] s,
           ''internal_meetings_1on1_sync''),
          (any_keyword_in
             [''training'', ''workshop'', ''learning'', ''course'', ''webinar'',
              ''certification'', ''onboarding''] s,
           ''training_learning''),
          (any_keyword_in
             [''planning'', ''roadmap'', ''strategy'', ''review'', ''retrospective'',
              ''sprint'', ''scrum'', ''project'', ''initiative'', ''backlog'',
              ''refinement''] s,
           ''planning_strategy''),
          (any_keyword_in
             [''interview'', ''candidate'', ''hiring'', ''recruiting'', ''screening''] s,
           ''recruiting_hiring''),
          (any_keyword_in
             [''focus time'', ''blocked'', ''do not book'', ''dnb'', ''heads down'',
              ''deep work'', ''no meetings''] s
             \<and> \<not> str_contains ''friday'' s,
           ''focus_time_blocked''),
          (busy_status e = ''BUSY'' \<or> transp e = ''OPAQUE'', ''general_work_meetings'')])"

text \<open>
  The parser on lines already stripped of their terminators; what decoding one
  field line does to an event; the logical lines of an event body, where a line
  that opens a folded field (it ends with \<open>=\<close> and has a non-empty field
  specification before its first colon) takes up the continuation lines that
  follow it; a well-formed block; and the invariant of the loop.
\<close>

fun handle_lines :: "parser_state \<Rightarrow> string list \<Rightarrow> py_error + parser_state" where
  "handle_lines st [] = Inr st"
| "handle_lines st (l # ls) =
     (case handle_line st l of
        Inl err \<Rightarrow> Inl err
      | Inr st1 \<Rightarrow> handle_lines st1 ls)"

definition decode_line :: "event \<Rightarrow> string \<Rightarrow> event" where
  "decode_line ev line =
     (if CHR '':'' \<in> set line
      then process_field ev (takeWhile (\<lambda>c. c \<noteq> CHR '':'') line)
             (tl (dropWhile (\<lambda>c. c \<noteq> CHR '':'') line))
      else ev)"

definition opens_folded_field :: "string \<Rightarrow> bool" where
  "opens_folded_field l = (ends_with_equals l \<and> CHR '':'' \<in> set l \<and> hd l \<noteq> CHR '':'')"

function logical_lines :: "string list \<Rightarrow> string list" where
  "logical_lines [] = []"
| "logical_lines (l # ls) =
     (if opens_folded_field l
      then (l @ concat (map strip (takeWhile starts_with_space_or_tab ls)))
             # logical_lines (dropWhile starts_with_space_or_tab ls)
      else l # logical_lines ls)"
  by pat_completeness auto
termination
  by (relation "measure length") (auto simp: length_dropWhile_le le_imp_less_Suc)

definition vevent_block :: "string list \<Rightarrow> string list" where
  "vevent_block body = ''BEGIN:VEVENT'' # body @ [''END:VEVENT'']"

definition state_ok :: "parser_state \<Rightarrow> bool" where
  "state_ok st = (field_pending st \<longrightarrow> current_event st \<noteq> None \<and> continuation_value st \<noteq> [])"

text \<open>Two loop states that differ at most in a continuation value that no pending
  field will read.\<close>

definition state_sim :: "parser_state \<Rightarrow> parser_state \<Rightarrow> bool" where
  "state_sim a b =
     (events a = events b \<and> current_event a = current_event b
      \<and> current_field a = current_field b
      \<and> (field_pending a \<longrightarrow> continuation_value a = continuation_value b))"

text \<open>
  A calendar text around its events: leading lines, then blocks, each followed by
  the lines up to the next block, then the remaining lines. It is well formed when
  no event begins outside the blocks' own first lines, no body holds a marker, and
  no event ends in the remaining lines (an event they open stays open).
\<close>

definition calendar_lines ::
  "string list \<Rightarrow> (string list \<times> string list) list \<Rightarrow> string list \<Rightarrow> string list" where
  "calendar_lines lead blocks rest =
     lead @ concat (map (\<lambda>(body, gap). vevent_block body @ gap) blocks) @ rest"

definition well_formed_calendar ::
  "string list \<Rightarrow> (string list \<times> string list) list \<Rightarrow> string list \<Rightarrow> bool" where
  "well_formed_calendar lead blocks rest =
     (''BEGIN:VEVENT'' \<notin> set lead
      \<and> list_all (\<lambda>(body, gap). ''BEGIN:VEVENT'' \<notin> set body \<and> ''END:VEVENT'' \<notin> set body
                                \<and> ''BEGIN:VEVENT'' \<notin> set gap) blocks
      \<and> ''END:VEVENT'' \<notin> set rest)"

text \<open>
  What the field decoder does with a field line \<open>NAME[;params]:VALUE\<close>, by the name
  of the field: the parameter string is empty or begins with a semicolon, and has no
  colon. Start and end keep the whole line; an attendee line appends the address
  found in the value with the \<open>PARTSTAT\<close> found in the field specification, and sets
  the event's own status when the value names the viewing user; a name that is not
  in the table changes nothing.
\<close>

definition params_ok :: "string \<Rightarrow> bool" where
  "params_ok ps = ((ps = [] \<or> hd ps = CHR '';'') \<and> CHR '':'' \<notin> set ps)"

definition field_effect :: "event \<Rightarrow> string \<Rightarrow> string \<Rightarrow> string \<Rightarrow> event" where
  "field_effect ev nm ps v =
     (if nm = ''SUMMARY'' then ev\<lparr>summary := filter (\<lambda>c. (of_char c :: nat) < 128) v\<rparr>
      else if nm = ''DTSTART'' then ev\<lparr>dtstart := nm @ ps @ '':'' @ v\<rparr>
      else if nm = ''DTEND'' then ev\<lparr>dtend := nm @ ps @ '':'' @ v\<rparr>
      else if nm = ''DESCRIPTION'' then ev\<lparr>description := take 500 v\<rparr>
      else if nm = ''LOCATION'' then ev\<lparr>location := v\<rparr>
      else if nm = ''ORGANIZER'' then
        ev\<lparr>organizer := (case search_mailto v of Some em \<Rightarrow> em | None \<Rightarrow> organizer ev)\<rparr>
      else if nm = ''ATTENDEE'' then
        ev\<lparr>status :=
             (case search_partstat (nm @ ps) of
                Some st \<Rightarrow>
                  if str_contains ''daniel.moreira@autodesk.com'' (lower v) then st
                  else status ev
              | None \<Rightarrow> status ev),
           attendees :=
             (case search_mailto v of
                Some em \<Rightarrow>
                  attendees ev
                  @ [\<lparr>att_email = em, att_status = search_partstat (nm @ ps)\<rparr>]
              | None \<Rightarrow> attendees ev)\<rparr>
      else if nm = ''CATEGORIES'' then ev\<lparr>categories := map strip (split_str '','' v)\<rparr>
      else if nm = ''X-MICROSOFT-CDO-BUSYSTATUS'' then ev\<lparr>busy_status := v\<rparr>
      else if nm = ''TRANSP'' then ev\<lparr>transp := v\<rparr>
      else if nm = ''CREATED'' then ev\<lparr>created := v\<rparr>
      else if nm = ''UID'' then ev\<lparr>uid := v\<rparr>
      else if nm = ''RRULE'' then ev\<lparr>is_recurring := True\<rparr>
      else if nm = ''RECURRENCE-ID'' then ev\<lparr>recurrence_id := v\<rparr>
      else ev)"


text \<open>
  How many attendee entries of an event are kept (not skipped as the viewing user)
  and stand under a given key; and the hours of a key in the table, 0 when the key
  has no record.
\<close>

definition attendance :: "string \<Rightarrow> stakeholder_attendee CalendarEvent \<Rightarrow> nat" where
  "attendance k e =
     length (filter (\<lambda>a. \<not> is_self a \<and> stakeholder_key a = k) (attendees e))"

definition stakeholder_hours :: "(string \<rightharpoonup> stakeholder) \<Rightarrow> string \<Rightarrow> rat" where
  "stakeholder_hours m k = (case m k of None \<Rightarrow> 0 | Some r \<Rightarrow> hours r)"

text \<open>The hours of a person in the words of the specification: the sum of the
  durations of the work-relevant events in which the person appears as an attendee
  that is not skipped.\<close>

definition spec_stakeholder_hours ::
  "stakeholder_attendee CalendarEvent list \<Rightarrow> string \<Rightarrow> rat" where
  "spec_stakeholder_hours evs k =
     sum_list (map get_duration_hours
       (filter (\<lambda>e. is_work_relevant e \<and> attendance k e \<noteq> 0) evs))"

text \<open>The hours and the count of an organization in the by-company table, 0 when
  the organization has no bucket.\<close>

definition bucket_hours_of :: "(string \<rightharpoonup> bucket) \<Rightarrow> string \<Rightarrow> rat" where
  "bucket_hours_of m c = (case m c of None \<Rightarrow> 0 | Some b \<Rightarrow> bucket_hours b)"

definition bucket_count_of :: "(string \<rightharpoonup> bucket) \<Rightarrow> string \<Rightarrow> nat" where
  "bucket_count_of m c = (case m c of None \<Rightarrow> 0 | Some b \<Rightarrow> bucket_count b)"

text \<open>What one event gives one organization: its duration divided by the number of
  distinct organizations of its attendees, and nothing to an organization that is
  not among them.\<close>

definition company_share :: "stakeholder_attendee CalendarEvent \<Rightarrow> string \<Rightarrow> rat" where
  "company_share e c =
     (if c \<in> set (event_companies e)
      then get_duration_hours e / of_nat (length (event_companies e))
      else 0)"

text \<open>
  The timestamp a start or end string carries: \<open>None\<close> when the string holds no
  token or the token does not parse. The ranges of the fields of a parsed timestamp,
  the length of a year, and the order of timestamps split into its date part and
  its time part.
\<close>

definition timestamp_of :: "string \<Rightarrow> datetime option" where
  "timestamp_of s =
     (case search_token (strip_tzid s) of None \<Rightarrow> None | Some tok \<Rightarrow> strptime tok)"

definition valid_datetime :: "datetime \<Rightarrow> bool" where
  "valid_datetime t =
     (1 \<le> dt_year t \<and> 1 \<le> dt_month t \<and> dt_month t \<le> 12 \<and> 1 \<le> dt_day t
      \<and> dt_day t \<le> days_in_month (dt_year t) (dt_month t)
      \<and> dt_hour t \<le> 23 \<and> dt_minute t \<le> 59 \<and> dt_second t \<le> 59)"

definition days_in_year :: "nat \<Rightarrow> int" where
  "days_in_year y = (if is_leap y then 366 else 365)"

definition date_less :: "datetime \<Rightarrow> datetime \<Rightarrow> bool" where
  "date_less a b =
     (dt_year a < dt_year b \<or> dt_year a = dt_year b \<and>
       (dt_month a < dt_month b \<or> dt_month a = dt_month b \<and> dt_day a < dt_day b))"

definition time_less :: "datetime \<Rightarrow> datetime \<Rightarrow> bool" where
  "time_less a b =
     (dt_hour a < dt_hour b \<or> dt_hour a = dt_hour b \<and>
       (dt_minute a < dt_minute b \<or> dt_minute a = dt_minute b \<and> dt_second a < dt_second b))"

section \<open>The classifier\<close>

lemma lower_DECLINED: "lower ''DECLINED'' = ''declined''"
  by (simp add: lower_def lower_char_def upper_letters_def lower_letters_def)

lemma lower_TENTATIVE: "lower ''TENTATIVE'' = ''tentative''"
  by (simp add: lower_def lower_char_def upper_letters_def lower_letters_def)

lemma first_match_default:
  "list_all (\<lambda>r. \<not> fst r) rs \<Longrightarrow> first_match rs d = d"
  by (induction rs) auto

lemma first_match_mem:
  "first_match rs d \<in> insert d (snd ` set rs)"
proof (induction rs)
  case Nil
  show ?case by simp
next
  case (Cons r rs)
  obtain c l where r: "r = (c, l)" by (cases r)
  from Cons show ?case unfolding r by (cases c) auto
qed

lemma categorize_as_rules:
  "categorize_event_final e = first_match (classification_rules e) ''uncategorized''"
  unfolding categorize_event_final_def classification_rules_def Let_def
  by (simp add: lower_DECLINED lower_TENTATIVE)

lemma rule_labels: "snd ` set (classification_rules e) \<subseteq> set all_categories"
  unfolding classification_rules_def Let_def all_categories_def excluded_categories_def work_categories_def
  by simp

text \<open>
  Claim C5. The classifier is a total function of the event: it returns one label,
  always one of the nineteen distinct labels of \<open>all_categories\<close>; it is the first
  match of the ordered rule table, and when no rule of the table matches the label
  is \<open>uncategorized\<close>. (Being a function of the event alone, it returns the same
  label each time it is applied to the same event.)
\<close>

theorem categorize_event_final_closed:
  "categorize_event_final e \<in> set all_categories
   \<and> distinct all_categories
   \<and> categorize_event_final e = first_match (classification_rules e) ''uncategorized''
   \<and> (list_all (\<lambda>r. \<not> fst r) (classification_rules e)
        \<longrightarrow> categorize_event_final e = ''uncategorized'')"
proof -
  have a: "categorize_event_final e = first_match (classification_rules e) ''uncategorized''"
    by (rule categorize_as_rules)
  have "''uncategorized'' \<in> set all_categories"
    by (simp add: all_categories_def work_categories_def)
  with first_match_mem[of "classification_rules e" "''uncategorized''"] rule_labels[of e] a
  have b: "categorize_event_final e \<in> set all_categories" by auto
  have c: "distinct all_categories"
    by (simp add: all_categories_def excluded_categories_def work_categories_def)
  from a b c first_match_default show ?thesis by metis
qed

theorem categorize_event_final_closed_witness:
  "list_all (\<lambda>r. \<not> fst r)
     (classification_rules ((new_CalendarEvent :: unit CalendarEvent)
        \<lparr>summary := ''Weekly notes'', attendees := [()]\<rparr>))
   \<and> categorize_event_final ((new_CalendarEvent :: unit CalendarEvent)
        \<lparr>summary := ''Weekly notes'', attendees := [()]\<rparr>) = ''uncategorized''"
proof -
  have h: "list_all (\<lambda>r. \<not> fst r)
     (classification_rules ((new_CalendarEvent :: unit CalendarEvent)
        \<lparr>summary := ''Weekly notes'', attendees := [()]\<rparr>))"
    by (simp add: classification_rules_def new_CalendarEvent_def is_actual_meeting_def
        any_keyword_in_def any_keyword_in2_def lower_def lower_char_def upper_letters_def
        lower_letters_def)
  with categorize_event_final_closed
    [of "(new_CalendarEvent :: unit CalendarEvent)
          \<lparr>summary := ''Weekly notes'', attendees := [()]\<rparr>"]
  show ?thesis by blast
qed

text \<open>
  Claim C6. An event with an empty attendee list is classified
  \<open>non_meetings_excluded\<close>, whatever its other fields hold.
\<close>

theorem no_attendees_non_meeting:
  "attendees e = [] \<Longrightarrow> categorize_event_final e = ''non_meetings_excluded''"
  by (simp add: categorize_event_final_def is_actual_meeting_def Let_def)

theorem no_attendees_non_meeting_witness:
  "attendees ((new_CalendarEvent :: unit CalendarEvent)
      \<lparr>summary := ''Customer demo'', status := ''ACCEPTED'', busy_status := ''BUSY'',
       transp := ''OPAQUE''\<rparr>) = []
   \<and> categorize_event_final ((new_CalendarEvent :: unit CalendarEvent)
      \<lparr>summary := ''Customer demo'', status := ''ACCEPTED'', busy_status := ''BUSY'',
       transp := ''OPAQUE''\<rparr>) = ''non_meetings_excluded''"
  using no_attendees_non_meeting
    [of "(new_CalendarEvent :: unit CalendarEvent)
      \<lparr>summary := ''Customer demo'', status := ''ACCEPTED'', busy_status := ''BUSY'',
       transp := ''OPAQUE''\<rparr>"]
  by (simp add: new_CalendarEvent_def)

text \<open>
  Claim C7. An event whose own participation status is \<open>DECLINED\<close> gets a label of
  the excluded set, so \<open>is_work_relevant_final\<close> is false of its category.
\<close>

theorem declined_never_work_relevant:
  "status e = ''DECLINED'' \<Longrightarrow>
   categorize_event_final e \<in> set excluded_categories
   \<and> \<not> is_work_relevant_final (categorize_event_final e)"
  by (simp add: categorize_event_final_def is_work_relevant_final_def
      excluded_categories_def lower_DECLINED Let_def)

theorem declined_never_work_relevant_witness:
  "status ((new_CalendarEvent :: unit CalendarEvent)
      \<lparr>summary := ''Customer QBR'', status := ''DECLINED'', busy_status := ''BUSY'',
       attendees := [(), ()]\<rparr>) = ''DECLINED''
   \<and> categorize_event_final ((new_CalendarEvent :: unit CalendarEvent)
      \<lparr>summary := ''Customer QBR'', status := ''DECLINED'', busy_status := ''BUSY'',
       attendees := [(), ()]\<rparr>) \<in> set excluded_categories
   \<and> \<not> is_work_relevant_final (categorize_event_final
      ((new_CalendarEvent :: unit CalendarEvent)
      \<lparr>summary := ''Customer QBR'', status := ''DECLINED'', busy_status := ''BUSY'',
       attendees := [(), ()]\<rparr>))"
  using declined_never_work_relevant
    [of "(new_CalendarEvent :: unit CalendarEvent)
      \<lparr>summary := ''Customer QBR'', status := ''DECLINED'', busy_status := ''BUSY'',
       attendees := [(), ()]\<rparr>"]
  by (simp add: new_CalendarEvent_def)

section \<open>The parser\<close>

lemma parse_lines_handle: "parse_lines st ls = handle_lines st (map rstrip_newlines ls)"
  by (induction ls arbitrary: st) (auto simp: parse_line_def split: sum.splits)

lemma handle_lines_append:
  "handle_lines st (xs @ ys) =
     (case handle_lines st xs of Inl e \<Rightarrow> Inl e | Inr st1 \<Rightarrow> handle_lines st1 ys)"
  by (induction xs arbitrary: st) (auto split: sum.splits)

lemma split_at_colon:
  "CHR '':'' \<in> set l \<Longrightarrow>
   l = takeWhile (\<lambda>c. c \<noteq> CHR '':'') l @ CHR '':'' # tl (dropWhile (\<lambda>c. c \<noteq> CHR '':'') l)"
proof -
  assume a: "CHR '':'' \<in> set l"
  then have "dropWhile (\<lambda>c. c \<noteq> CHR '':'') l \<noteq> []" by (simp add: dropWhile_eq_Nil_conv) 
  moreover have "hd (dropWhile (\<lambda>c. c \<noteq> CHR '':'') l) = CHR '':''"
    using a hd_dropWhile[of "\<lambda>c. c \<noteq> CHR '':''" l] calculation by auto
  ultimately have "dropWhile (\<lambda>c. c \<noteq> CHR '':'') l = CHR '':'' # tl (dropWhile (\<lambda>c. c \<noteq> CHR '':'') l)"
    by (cases "dropWhile (\<lambda>c. c \<noteq> CHR '':'') l") auto
  then show ?thesis
    using takeWhile_dropWhile_id[of "\<lambda>c. c \<noteq> CHR '':''" l] by simp
qed

lemma folded_value_nonempty:
  assumes "CHR '':'' \<in> set l" "ends_with_equals l"
  shows "tl (dropWhile (\<lambda>c. c \<noteq> CHR '':'') l) \<noteq> []"
proof
  assume e: "tl (dropWhile (\<lambda>c. c \<noteq> CHR '':'') l) = []"
  from split_at_colon[OF assms(1)] e
  have "l = takeWhile (\<lambda>c. c \<noteq> CHR '':'') l @ [CHR '':'']" by simp
  then have "last l = CHR '':''" by (metis last_snoc)
  with assms(2) show False by (simp add: ends_with_equals_def)
qed

lemma dispatch_BEGIN:
  "dispatch_line st ''BEGIN:VEVENT'' = st\<lparr>current_event := Some new_CalendarEvent\<rparr>"
  by (simp add: dispatch_line_def)

lemma dispatch_END:
  "current_event st = Some ev \<Longrightarrow>
   dispatch_line st ''END:VEVENT'' = st\<lparr>events := events st @ [ev], current_event := None\<rparr>"
  by (simp add: dispatch_line_def)

lemma dispatch_closed:
  "current_event st = None \<Longrightarrow> l \<noteq> ''BEGIN:VEVENT'' \<Longrightarrow> dispatch_line st l = st"
  by (simp add: dispatch_line_def)

lemma dispatch_no_colon:
  "l \<noteq> ''BEGIN:VEVENT'' \<Longrightarrow> l \<noteq> ''END:VEVENT'' \<Longrightarrow> CHR '':'' \<notin> set l \<Longrightarrow>
   dispatch_line st l = st"
  by (simp add: dispatch_line_def split: option.splits)

lemma dispatch_field:
  "current_event st = Some ev \<Longrightarrow> l \<noteq> ''BEGIN:VEVENT'' \<Longrightarrow> l \<noteq> ''END:VEVENT'' \<Longrightarrow>
   CHR '':'' \<in> set l \<Longrightarrow> \<not> ends_with_equals l \<Longrightarrow>
   dispatch_line st l = st\<lparr>current_event := Some (decode_line ev l), current_field := None\<rparr>"
  by (simp add: dispatch_line_def decode_line_def Let_def)

lemma dispatch_fold:
  "current_event st = Some ev \<Longrightarrow> CHR '':'' \<in> set l \<Longrightarrow> ends_with_equals l \<Longrightarrow>
   dispatch_line st l =
     st\<lparr>current_field := Some (takeWhile (\<lambda>c. c \<noteq> CHR '':'') l),
        continuation_value := tl (dropWhile (\<lambda>c. c \<noteq> CHR '':'') l)\<rparr>"
  by (auto simp add: dispatch_line_def Let_def ends_with_equals_def)

lemma handle_not_pending:
  "\<not> field_pending st \<Longrightarrow> handle_line st l = Inr (dispatch_line st l)"
  by (simp add: handle_line_def flush_field_def)

lemma handle_continuation:
  "field_pending st \<Longrightarrow> starts_with_space_or_tab l \<Longrightarrow>
   handle_line st l = Inr (st\<lparr>continuation_value := continuation_value st @ strip l\<rparr>)"
  by (simp add: handle_line_def)

lemma handle_flush:
  "field_pending st \<Longrightarrow> current_field st = Some f \<Longrightarrow> current_event st = Some ev \<Longrightarrow>
   continuation_value st \<noteq> [] \<Longrightarrow> \<not> starts_with_space_or_tab l \<Longrightarrow>
   handle_line st l =
     Inr (dispatch_line
            (st\<lparr>current_event := Some (process_field ev f (continuation_value st)),
                current_field := None, continuation_value := []\<rparr>) l)"
  by (simp add: handle_line_def flush_field_def process_field_opt_def)

lemma absorb_continuations:
  "field_pending st \<Longrightarrow> \<forall>c\<in>set cs. starts_with_space_or_tab c \<Longrightarrow>
   handle_lines st cs =
     Inr (st\<lparr>continuation_value := continuation_value st @ concat (map strip cs)\<rparr>)"
proof (induction cs arbitrary: st)
  case Nil
  show ?case by simp
next
  case (Cons c cs)
  let ?st1 = "st\<lparr>continuation_value := continuation_value st @ strip c\<rparr>"
  have p: "field_pending ?st1" using Cons.prems(1) by (simp add: field_pending_def)
  have "handle_line st c = Inr ?st1" using Cons.prems by (simp add: handle_continuation)
  moreover have "handle_lines ?st1 cs =
     Inr (?st1\<lparr>continuation_value := continuation_value ?st1 @ concat (map strip cs)\<rparr>)"
    using Cons.IH[OF p] Cons.prems(2) by simp
  ultimately show ?case by simp
qed

subsection \<open>The loop never raises\<close>

lemma dispatch_ok:
  assumes "\<not> field_pending st"
  shows "state_ok (dispatch_line st l)"
proof -
  have "field_pending (dispatch_line st l) \<Longrightarrow>
        current_event (dispatch_line st l) \<noteq> None \<and> continuation_value (dispatch_line st l) \<noteq> []"
    using assms folded_value_nonempty[of l]
    by (auto simp: dispatch_line_def field_pending_def Let_def split: option.splits if_splits)
  then show ?thesis by (auto simp: state_ok_def)
qed

lemma handle_line_ok:
  assumes "state_ok st"
  shows "\<exists>st'. handle_line st l = Inr st' \<and> state_ok st'"
proof (cases "field_pending st")
  case False
  then show ?thesis by (simp add: handle_not_pending dispatch_ok)
next
  case True
  with assms obtain ev where ev: "current_event st = Some ev" and cv: "continuation_value st \<noteq> []"
    by (auto simp: state_ok_def)
  from True obtain f where f: "current_field st = Some f"
    by (auto simp: field_pending_def split: option.splits)
  show ?thesis
  proof (cases "starts_with_space_or_tab l")
    case True
    with \<open>field_pending st\<close> ev cv show ?thesis
      by (simp add: handle_continuation state_ok_def field_pending_def)
  next
    case False
    have "\<not> field_pending (st\<lparr>current_event := Some (process_field ev f (continuation_value st)),
                current_field := None, continuation_value := []\<rparr>)"
      by (simp add: field_pending_def)
    then show ?thesis
      using handle_flush[OF \<open>field_pending st\<close> f ev cv False] dispatch_ok by simp
  qed
qed

lemma handle_lines_ok:
  "state_ok st \<Longrightarrow> \<exists>st'. handle_lines st ls = Inr st' \<and> state_ok st'"
proof (induction ls arbitrary: st)
  case Nil
  then show ?case by simp
next
  case (Cons l ls)
  from handle_line_ok[OF Cons.prems, of l] obtain st1 where
    "handle_line st l = Inr st1" "state_ok st1" by blast
  with Cons.IH[of st1] show ?case by simp
qed

lemma initial_ok: "state_ok initial_state"
  by (simp add: state_ok_def initial_state_def field_pending_def)

subsection \<open>Events are emitted at end markers only\<close>

lemma flush_events: "flush_field st = Inr st1 \<Longrightarrow> events st1 = events st"
  by (auto simp: flush_field_def split: if_splits option.splits sum.splits)

lemma dispatch_events: "l \<noteq> ''END:VEVENT'' \<Longrightarrow> events (dispatch_line st l) = events st"
  by (auto simp: dispatch_line_def Let_def split: option.splits)

lemma handle_line_events:
  "handle_line st l = Inr st' \<Longrightarrow> l \<noteq> ''END:VEVENT'' \<Longrightarrow> events st' = events st"
  by (auto simp: handle_line_def flush_events dispatch_events split: if_splits sum.splits)

lemma handle_lines_events:
  "handle_lines st ls = Inr st' \<Longrightarrow> ''END:VEVENT'' \<notin> set ls \<Longrightarrow> events st' = events st"
proof (induction ls arbitrary: st)
  case Nil
  then show ?case by simp
next
  case (Cons l ls)
  then show ?case
    by (auto split: sum.splits dest: handle_line_events)
qed

text \<open>
  Claim C3. When a \<open>BEGIN:VEVENT\<close> line is followed by no \<open>END:VEVENT\<close> line up to
  the end of the input, the parser returns exactly the events it had emitted before
  that line: the event left open is not in the output. (The parser returns a list on
  every input, so both sides are results and not errors.)
\<close>

theorem unterminated_event_discarded:
  assumes "rstrip_newlines b = ''BEGIN:VEVENT''"
    and "\<forall>l\<in>set rest. rstrip_newlines l \<noteq> ''END:VEVENT''"
  shows "parse_ics_file (pre @ b # rest) = parse_ics_file pre
         \<and> (\<exists>evs. parse_ics_file pre = Inr evs)"
proof -
  obtain s1 where s1: "handle_lines initial_state (map rstrip_newlines pre) = Inr s1" "state_ok s1"
    using handle_lines_ok[OF initial_ok] by blast
  obtain s2 where s2: "handle_lines s1 (map rstrip_newlines (b # rest)) = Inr s2"
    using handle_lines_ok[OF s1(2)] by blast
  have "''END:VEVENT'' \<notin> set (map rstrip_newlines (b # rest))"
    using assms by auto
  with s2 have ev: "events s2 = events s1" by (rule handle_lines_events)
  have "parse_lines initial_state (pre @ b # rest) = Inr s2"
    using s1 s2 by (simp add: parse_lines_handle handle_lines_append)
  moreover have "parse_lines initial_state pre = Inr s1"
    using s1 by (simp add: parse_lines_handle)
  ultimately show ?thesis using ev by (simp add: parse_ics_file_def)
qed

theorem unterminated_event_discarded_witness:
  "rstrip_newlines (''BEGIN:VEVENT'' @ [CHR 0x0A]) = ''BEGIN:VEVENT''
   \<and> list_all (\<lambda>l. rstrip_newlines l \<noteq> ''END:VEVENT'')
         [''SUMMARY:Second'' @ [CHR 0x0A], ''LOCATION:Room 2'' @ [CHR 0x0A]]
   \<and> parse_ics_file
       ([''BEGIN:VEVENT'' @ [CHR 0x0A], ''SUMMARY:First'' @ [CHR 0x0A],
         ''END:VEVENT'' @ [CHR 0x0A]]
        @ (''BEGIN:VEVENT'' @ [CHR 0x0A])
        # [''SUMMARY:Second'' @ [CHR 0x0A], ''LOCATION:Room 2'' @ [CHR 0x0A]])
     = Inr [new_CalendarEvent\<lparr>summary := ''First''\<rparr>]"
proof -
  have h1: "rstrip_newlines (''BEGIN:VEVENT'' @ [CHR 0x0A]) = ''BEGIN:VEVENT''"
    by (simp add: rstrip_newlines_def)
  have h2: "\<forall>l\<in>set [''SUMMARY:Second'' @ [CHR 0x0A], ''LOCATION:Room 2'' @ [CHR 0x0A]].
         rstrip_newlines l \<noteq> ''END:VEVENT''"
    by (simp add: rstrip_newlines_def)
  have h3: "parse_ics_file
       [''BEGIN:VEVENT'' @ [CHR 0x0A], ''SUMMARY:First'' @ [CHR 0x0A],
        ''END:VEVENT'' @ [CHR 0x0A]]
     = Inr [new_CalendarEvent\<lparr>summary := ''First''\<rparr>]"
    by code_simp
  from unterminated_event_discarded[OF h1 h2,
      of "[''BEGIN:VEVENT'' @ [CHR 0x0A], ''SUMMARY:First'' @ [CHR 0x0A],
           ''END:VEVENT'' @ [CHR 0x0A]]"] h1 h2 h3
  show ?thesis by simp
qed

subsection \<open>Decoding the body of a block\<close>

lemma process_field_empty_name: "process_field ev [] v = ev"
  by (simp add: process_field_def field_name_of_def)

lemma decode_unfolded:
  assumes "CHR '':'' \<in> set l"
  shows "decode_line ev (l @ x) =
         process_field ev (takeWhile (\<lambda>c. c \<noteq> CHR '':'') l)
           (tl (dropWhile (\<lambda>c. c \<noteq> CHR '':'') l) @ x)"
proof -
  from assms have d: "dropWhile (\<lambda>c. c \<noteq> CHR '':'') l \<noteq> []"
    by (simp add: dropWhile_eq_Nil_conv)
  have "takeWhile (\<lambda>c. c \<noteq> CHR '':'') (l @ x) = takeWhile (\<lambda>c. c \<noteq> CHR '':'') l"
    using assms by (simp add: takeWhile_append1)
  moreover have "dropWhile (\<lambda>c. c \<noteq> CHR '':'') (l @ x) = dropWhile (\<lambda>c. c \<noteq> CHR '':'') l @ x"
    using assms by (simp add: dropWhile_append1)
  ultimately show ?thesis using assms d by (simp add: decode_line_def)
qed

lemma not_start_END: "\<not> starts_with_space_or_tab ''END:VEVENT''"
  by (simp add: starts_with_space_or_tab_def)

lemma flush_then_same:
  assumes p: "field_pending st" and f: "current_field st = Some f"
    and ev: "current_event st = Some ev" and cv: "continuation_value st \<noteq> []"
    and l: "\<not> starts_with_space_or_tab l"
  shows "handle_line st l =
         handle_line (st\<lparr>current_event := Some (process_field ev f (continuation_value st)),
                current_field := None, continuation_value := []\<rparr>) l"
proof -
  have "\<not> field_pending (st\<lparr>current_event := Some (process_field ev f (continuation_value st)),
                current_field := None, continuation_value := []\<rparr>)"
    by (simp add: field_pending_def)
  then show ?thesis using handle_flush[OF p f ev cv l] by (simp add: handle_not_pending)
qed

lemma body_decoded:
  assumes "current_event st = Some ev" and "\<not> field_pending st"
    and "''BEGIN:VEVENT'' \<notin> set body" and "''END:VEVENT'' \<notin> set body"
  shows "\<exists>st'. handle_lines st (body @ [''END:VEVENT'']) = Inr st'
           \<and> events st' = events st @ [foldl decode_line ev (logical_lines body)]
           \<and> current_event st' = None \<and> \<not> field_pending st'"
  using assms
proof (induction body arbitrary: st ev rule: logical_lines.induct)
  case 1
  then show ?case
    by (simp add: handle_not_pending dispatch_END field_pending_def)
next
  case (2 l ls)
  from "2.prems" have lB: "l \<noteq> ''BEGIN:VEVENT''" and lE: "l \<noteq> ''END:VEVENT''"
    and lsB: "''BEGIN:VEVENT'' \<notin> set ls" and lsE: "''END:VEVENT'' \<notin> set ls" by auto
  have h1: "handle_line st l = Inr (dispatch_line st l)"
    using "2.prems"(2) by (rule handle_not_pending)
  show ?case
  proof (cases "opens_folded_field l")
    case True
    let ?f = "takeWhile (\<lambda>c. c \<noteq> CHR '':'') l"
    let ?v = "tl (dropWhile (\<lambda>c. c \<noteq> CHR '':'') l)"
    let ?cs = "takeWhile starts_with_space_or_tab ls"
    let ?rest = "dropWhile starts_with_space_or_tab ls"
    let ?x = "concat (map strip ?cs)"
    from True have colon: "CHR '':'' \<in> set l" and eq: "ends_with_equals l"
      and hd: "hd l \<noteq> CHR '':''" by (auto simp: opens_folded_field_def)
    from eq have lne: "l \<noteq> []" by (simp add: ends_with_equals_def)
    with hd have fne: "?f \<noteq> []" by (cases l) auto
    let ?st2 = "st\<lparr>current_field := Some ?f, continuation_value := ?v\<rparr>"
    have d: "dispatch_line st l = ?st2"
      using "2.prems"(1) colon eq by (rule dispatch_fold)
    have p2: "field_pending ?st2" using fne by (simp add: field_pending_def)
    have cs: "\<forall>c\<in>set ?cs. starts_with_space_or_tab c"
      by (auto dest: set_takeWhileD)
    let ?st3 = "?st2\<lparr>continuation_value := ?v @ ?x\<rparr>"
    have a: "handle_lines ?st2 ?cs = Inr ?st3"
      using absorb_continuations[OF p2 cs] by simp
    let ?ev' = "process_field ev ?f (?v @ ?x)"
    let ?st4 = "?st3\<lparr>current_event := Some ?ev', current_field := None, continuation_value := []\<rparr>"
    have vne: "?v @ ?x \<noteq> []" using folded_value_nonempty[OF colon eq] by simp
    have p3: "field_pending ?st3" using fne by (simp add: field_pending_def)
    obtain r rs where rr: "?rest @ [''END:VEVENT''] = r # rs" by (cases ?rest) auto
    have rn: "\<not> starts_with_space_or_tab r"
    proof (cases ?rest)
      case Nil
      with rr have "r = ''END:VEVENT''" by simp
      then show ?thesis using not_start_END by simp
    next
      case (Cons a as)
      with rr have "r = hd ?rest" by simp
      moreover have "\<not> starts_with_space_or_tab (hd ?rest)"
        using Cons hd_dropWhile[of starts_with_space_or_tab ls] by simp
      ultimately show ?thesis by simp
    qed
    have fl: "handle_line ?st3 r = handle_line ?st4 r"
      using flush_then_same[of ?st3 ?f ev r] p3 "2.prems"(1) vne rn by simp
    have step: "handle_lines ?st3 (?rest @ [''END:VEVENT'']) = handle_lines ?st4 (?rest @ [''END:VEVENT''])"
      unfolding rr using fl by simp
    have split: "ls = ?cs @ ?rest" by simp
    have "handle_lines st ((l # ls) @ [''END:VEVENT'']) = handle_lines ?st2 (ls @ [''END:VEVENT''])"
      using h1 d by simp
    also have "\<dots> = handle_lines ?st2 (?cs @ (?rest @ [''END:VEVENT'']))"
      using split by (metis append.assoc)
    also have "\<dots> = handle_lines ?st3 (?rest @ [''END:VEVENT''])"
      using a by (simp add: handle_lines_append)
    also have "\<dots> = handle_lines ?st4 (?rest @ [''END:VEVENT''])" by (rule step)
    finally have run: "handle_lines st ((l # ls) @ [''END:VEVENT'']) = handle_lines ?st4 (?rest @ [''END:VEVENT''])" .
    have restB: "''BEGIN:VEVENT'' \<notin> set ?rest" using lsB by (auto dest: set_dropWhileD)
    have restE: "''END:VEVENT'' \<notin> set ?rest" using lsE by (auto dest: set_dropWhileD)
    have c4: "current_event ?st4 = Some ?ev'" by simp
    have n4: "\<not> field_pending ?st4" by (simp add: field_pending_def)
    from "2.IH"(1)[OF True c4 n4 restB restE] obtain st' where
      st': "handle_lines ?st4 (?rest @ [''END:VEVENT'']) = Inr st'"
        "events st' = events ?st4 @ [foldl decode_line ?ev' (logical_lines ?rest)]"
        "current_event st' = None" "\<not> field_pending st'" by blast
    have dec: "decode_line ev (l @ ?x) = ?ev'" using decode_unfolded[OF colon] by simp
    have "foldl decode_line ev (logical_lines (l # ls)) = foldl decode_line ?ev' (logical_lines ?rest)"
      using True dec by simp
    with st' run show ?thesis by simp
  next
    case False
    have ll: "logical_lines (l # ls) = l # logical_lines ls" using False by simp
    show ?thesis
    proof (cases "CHR '':'' \<in> set l")
      case nc: False
      have d: "dispatch_line st l = st" using lB lE nc by (rule dispatch_no_colon)
      have dl: "decode_line ev l = ev" using nc by (simp add: decode_line_def)
      from "2.IH"(2)[OF False "2.prems"(1) "2.prems"(2) lsB lsE] h1 d dl ll
      show ?thesis by simp
    next
      case colon: True
      show ?thesis
      proof (cases "ends_with_equals l")
        case ne: False
        let ?st1 = "st\<lparr>current_event := Some (decode_line ev l), current_field := None\<rparr>"
        have d: "dispatch_line st l = ?st1"
          using "2.prems"(1) lB lE colon ne by (rule dispatch_field)
        have c1: "current_event ?st1 = Some (decode_line ev l)" by simp
        have n1: "\<not> field_pending ?st1" by (simp add: field_pending_def)
        from "2.IH"(2)[OF False c1 n1 lsB lsE] h1 d ll
        show ?thesis by simp
      next
        case eq: True
        with False colon have hd: "hd l = CHR '':''" by (simp add: opens_folded_field_def)
        from eq have lne: "l \<noteq> []" by (simp add: ends_with_equals_def)
        with hd have f0: "takeWhile (\<lambda>c. c \<noteq> CHR '':'') l = []" by (cases l) auto
        let ?st1 = "st\<lparr>current_field := Some [],
                       continuation_value := tl (dropWhile (\<lambda>c. c \<noteq> CHR '':'') l)\<rparr>"
        have d: "dispatch_line st l = ?st1"
          using dispatch_fold[OF "2.prems"(1) colon eq] f0 by simp
        have c1: "current_event ?st1 = Some ev" using "2.prems"(1) by simp
        have n1: "\<not> field_pending ?st1" by (simp add: field_pending_def)
        have dl: "decode_line ev l = ev"
          using colon f0 by (simp add: decode_line_def process_field_empty_name)
        from "2.IH"(2)[OF False c1 n1 lsB lsE] h1 d ll dl
        show ?thesis by simp
      qed
    qed
  qed
qed

subsection \<open>Blocks inside a calendar\<close>

lemma gap_ignored:
  assumes "current_event st = None" "\<not> field_pending st" "''BEGIN:VEVENT'' \<notin> set g"
  shows "handle_lines st g = Inr st"
  using assms(3)
proof (induction g)
  case Nil
  show ?case by simp
next
  case (Cons l g)
  from Cons.prems have "l \<noteq> ''BEGIN:VEVENT''" by auto
  with assms(1,2) have "handle_line st l = Inr st"
    by (simp add: handle_not_pending dispatch_closed)
  with Cons show ?case by simp
qed

lemma blocks_with_gaps_decoded:
  assumes "current_event st = None" and "\<not> field_pending st"
    and "list_all (\<lambda>(body, gap). ''BEGIN:VEVENT'' \<notin> set body \<and> ''END:VEVENT'' \<notin> set body
                                \<and> ''BEGIN:VEVENT'' \<notin> set gap) blocks"
  shows "\<exists>st'. handle_lines st (concat (map (\<lambda>(body, gap). vevent_block body @ gap) blocks))
               = Inr st'
           \<and> events st' = events st
                @ map (\<lambda>(body, gap). foldl decode_line new_CalendarEvent (logical_lines body))
                    blocks
           \<and> current_event st' = None \<and> \<not> field_pending st'"
  using assms
proof (induction blocks arbitrary: st)
  case Nil
  then show ?case by simp
next
  case (Cons bg bs)
  obtain b g where bg: "bg = (b, g)" by (cases bg)
  from Cons.prems(3) bg have bB: "''BEGIN:VEVENT'' \<notin> set b" and bE: "''END:VEVENT'' \<notin> set b"
    and gB: "''BEGIN:VEVENT'' \<notin> set g"
    and rest: "list_all (\<lambda>(body, gap). ''BEGIN:VEVENT'' \<notin> set body \<and> ''END:VEVENT'' \<notin> set body
                                \<and> ''BEGIN:VEVENT'' \<notin> set gap) bs"
    by auto
  let ?st1 = "st\<lparr>current_event := Some new_CalendarEvent\<rparr>"
  let ?dec = "\<lambda>(body, gap). foldl decode_line new_CalendarEvent (logical_lines body)"
  have h: "handle_line st ''BEGIN:VEVENT'' = Inr ?st1"
    using Cons.prems(2) by (simp add: handle_not_pending dispatch_BEGIN)
  have n1: "\<not> field_pending ?st1" using Cons.prems(2) by (simp add: field_pending_def)
  from body_decoded[of ?st1 new_CalendarEvent b, OF _ n1 bB bE] obtain st2 where
    st2: "handle_lines ?st1 (b @ [''END:VEVENT'']) = Inr st2"
      "events st2 = events st @ [foldl decode_line new_CalendarEvent (logical_lines b)]"
      "current_event st2 = None" "\<not> field_pending st2" by auto
  have g2: "handle_lines st2 g = Inr st2" using st2(3,4) gB by (rule gap_ignored)
  from Cons.IH[OF st2(3,4) rest] obtain st3 where
    st3: "handle_lines st2 (concat (map (\<lambda>(body, gap). vevent_block body @ gap) bs)) = Inr st3"
      "events st3 = events st2 @ map ?dec bs"
      "current_event st3 = None" "\<not> field_pending st3" by blast
  let ?more = "concat (map (\<lambda>(body, gap). vevent_block body @ gap) bs)"
  have "handle_lines ?st1 ((b @ [''END:VEVENT'']) @ (g @ ?more)) =
        (case handle_lines ?st1 (b @ [''END:VEVENT'']) of
           Inl e \<Rightarrow> Inl e | Inr s \<Rightarrow> handle_lines s (g @ ?more))"
    by (rule handle_lines_append)
  also have "\<dots> = handle_lines st2 (g @ ?more)" by (simp only: st2(1) sum.case)
  also have "\<dots> = (case handle_lines st2 g of
           Inl e \<Rightarrow> Inl e | Inr s \<Rightarrow> handle_lines s ?more)"
    by (rule handle_lines_append)
  also have "\<dots> = handle_lines st2 ?more" by (simp only: g2 sum.case)
  also have "\<dots> = Inr st3" by (rule st3(1))
  finally have run: "handle_lines ?st1 ((b @ [''END:VEVENT'']) @ (g @ ?more)) = Inr st3" .
  have shape: "concat (map (\<lambda>(body, gap). vevent_block body @ gap) (bg # bs))
        = ''BEGIN:VEVENT'' # ((b @ [''END:VEVENT'']) @ (g @ ?more))"
    by (simp add: bg vevent_block_def)
  have "handle_lines st (concat (map (\<lambda>(body, gap). vevent_block body @ gap) (bg # bs))) = Inr st3"
    unfolding shape using h run by (simp del: append_assoc)
  moreover have "events st3 = events st @ map ?dec (bg # bs)"
    using st2(2) st3(2) by (simp add: bg)
  ultimately show ?case using st3(3,4) by blast
qed

lemma calendar_decoded:
  assumes "well_formed_calendar lead blocks rest"
  shows "\<exists>st'. handle_lines initial_state (calendar_lines lead blocks rest) = Inr st'
           \<and> events st'
              = map (\<lambda>(body, gap). foldl decode_line new_CalendarEvent (logical_lines body))
                  blocks"
proof -
  from assms have lB: "''BEGIN:VEVENT'' \<notin> set lead"
    and bl: "list_all (\<lambda>(body, gap). ''BEGIN:VEVENT'' \<notin> set body \<and> ''END:VEVENT'' \<notin> set body
                                \<and> ''BEGIN:VEVENT'' \<notin> set gap) blocks"
    and rE: "''END:VEVENT'' \<notin> set rest"
    by (auto simp: well_formed_calendar_def)
  have c0: "current_event initial_state = None" by (simp add: initial_state_def)
  have n0: "\<not> field_pending initial_state" by (simp add: field_pending_def initial_state_def)
  have e0: "events initial_state = []" by (simp add: initial_state_def)
  have l: "handle_lines initial_state lead = Inr initial_state" using c0 n0 lB by (rule gap_ignored)
  let ?mid = "concat (map (\<lambda>(body, gap). vevent_block body @ gap) blocks)"
  from blocks_with_gaps_decoded[OF c0 n0 bl] obtain st1 where
    st1: "handle_lines initial_state ?mid = Inr st1"
      "events st1 = events initial_state
          @ map (\<lambda>(body, gap). foldl decode_line new_CalendarEvent (logical_lines body)) blocks"
      "\<not> field_pending st1" by blast
  have ok1: "state_ok st1" using st1(3) by (simp add: state_ok_def)
  from handle_lines_ok[OF ok1, of rest] obtain st2 where
    st2: "handle_lines st1 rest = Inr st2" by blast
  from st2 rE have ev2: "events st2 = events st1" by (rule handle_lines_events)
  have "handle_lines initial_state (lead @ (?mid @ rest)) =
        (case handle_lines initial_state lead of
           Inl e \<Rightarrow> Inl e | Inr s \<Rightarrow> handle_lines s (?mid @ rest))"
    by (rule handle_lines_append)
  also have "\<dots> = handle_lines initial_state (?mid @ rest)" by (simp only: l sum.case)
  also have "\<dots> = (case handle_lines initial_state ?mid of
           Inl e \<Rightarrow> Inl e | Inr s \<Rightarrow> handle_lines s rest)"
    by (rule handle_lines_append)
  also have "\<dots> = handle_lines st1 rest" by (simp only: st1(1) sum.case)
  also have "\<dots> = Inr st2" by (rule st2)
  finally have "handle_lines initial_state (calendar_lines lead blocks rest) = Inr st2"
    by (simp only: calendar_lines_def)
  with ev2 st1(2) e0 show ?thesis by simp
qed

subsection \<open>The two searches of the field decoder\<close>

lemma prefix_not_straddling:
  assumes p: "prefix (c0 # pat) (u @ c0 # w)" and c: "c0 \<notin> set pat" and u: "u \<noteq> []"
  shows "prefix (c0 # pat) u"
proof -
  from p have "prefix (c0 # pat) u \<or> (\<exists>us. c0 # pat = u @ us \<and> prefix us (c0 # w))"
    by (simp add: prefix_append)
  then show ?thesis
  proof
    assume "prefix (c0 # pat) u"
    then show ?thesis .
  next
    assume "\<exists>us. c0 # pat = u @ us \<and> prefix us (c0 # w)"
    then obtain us where e: "c0 # pat = u @ us" and q: "prefix us (c0 # w)" by blast
    show ?thesis
    proof (cases us)
      case Nil
      with e show ?thesis by simp
    next
      case (Cons a as)
      with q have "a = c0" by simp
      from u obtain x xs where "u = x # xs" by (cases u) auto
      with e Cons \<open>a = c0\<close> have "pat = xs @ c0 # as" by simp
      with c show ?thesis by simp
    qed
  qed
qed

lemma re_search_group_found:
  assumes c: "c0 \<notin> set pat" and n: "\<not> str_contains (c0 # pat) p"
    and t: "tok \<noteq> []" "list_all cls tok" and r: "r = [] \<or> \<not> cls (hd r)"
  shows "re_search_group (c0 # pat) cls (p @ (c0 # pat) @ tok @ r) = Some tok"
  using n
proof (induction p)
  case Nil
  have tw: "takeWhile cls (tok @ r) = tok"
  proof (cases r)
    case Nil
    with t(2) show ?thesis by (simp add: list_all_iff)
  next
    case (Cons a as)
    with r have "\<not> cls a" by simp
    with t(2) Cons show ?thesis by (simp add: list_all_iff takeWhile_tail)
  qed
  with t(1) show ?case by simp
next
  case (Cons x p)
  from Cons.prems have np: "\<not> prefix (c0 # pat) (x # p)" and nc: "\<not> str_contains (c0 # pat) p"
    by auto
  let ?s = "p @ (c0 # pat) @ tok @ r"
  have "\<not> prefix (c0 # pat) ((x # p) @ c0 # (pat @ tok @ r))"
    using prefix_not_straddling[of c0 pat "x # p" "pat @ tok @ r"] c np by blast
  moreover have "(x # p) @ c0 # (pat @ tok @ r) = x # ?s" by simp
  ultimately have np': "\<not> prefix (c0 # pat) (x # ?s)" by (simp only: simp_thms)
  have "re_search_group (c0 # pat) cls (x # ?s) = re_search_group (c0 # pat) cls ?s"
    by (simp only: re_search_group.simps(2) np' simp_thms if_False)
  moreover have "(x # p) @ (c0 # pat) @ tok @ r = x # ?s" by simp
  ultimately have "re_search_group (c0 # pat) cls ((x # p) @ (c0 # pat) @ tok @ r)
      = re_search_group (c0 # pat) cls ?s" by (simp only: simp_thms)
  with Cons.IH[OF nc] show ?case by simp
qed

lemma re_search_group_none:
  "\<not> str_contains pat s \<Longrightarrow> re_search_group pat cls s = None"
  by (induction s) auto

lemma search_mailto_found:
  assumes "\<not> str_contains ''mailto:'' p" "em \<noteq> []" "list_all (\<lambda>c. \<not> is_space c) em"
    "r = [] \<or> is_space (hd r)"
  shows "search_mailto (p @ ''mailto:'' @ em @ r) = Some em"
proof -
  have "re_search_group (CHR ''m'' # ''ailto:'') (\<lambda>c. \<not> is_space c)
          (p @ (CHR ''m'' # ''ailto:'') @ em @ r) = Some em"
    using assms by (intro re_search_group_found) auto
  then show ?thesis by (simp add: search_mailto_def)
qed

lemma search_partstat_found:
  assumes "\<not> str_contains ''PARTSTAT='' p" "st \<noteq> []"
    "list_all (\<lambda>c. c \<noteq> CHR '';'' \<and> c \<noteq> CHR '':'') st"
    "r = [] \<or> hd r = CHR '';'' \<or> hd r = CHR '':''"
  shows "search_partstat (p @ ''PARTSTAT='' @ st @ r) = Some st"
proof -
  have "re_search_group (CHR ''P'' # ''ARTSTAT='') (\<lambda>c. c \<noteq> CHR '';'' \<and> c \<noteq> CHR '':'')
          (p @ (CHR ''P'' # ''ARTSTAT='') @ st @ r) = Some st"
    using assms by (intro re_search_group_found) auto
  then show ?thesis by (simp add: search_partstat_def)
qed

subsection \<open>The effect of one field line\<close>

lemma field_name_of_params:
  assumes "CHR '';'' \<notin> set nm" "ps = [] \<or> hd ps = CHR '';''"
  shows "field_name_of (nm @ ps) = nm"
proof (cases ps)
  case Nil
  with assms(1) show ?thesis by (auto simp: field_name_of_def)
next
  case (Cons a as)
  with assms(2) have "a = CHR '';''" by simp
  with Cons assms(1) show ?thesis by (auto simp: field_name_of_def takeWhile_tail)
qed

lemma decode_field_line:
  assumes "CHR '':'' \<notin> set f"
  shows "decode_line ev (f @ '':'' @ v) = process_field ev f v"
proof -
  have "takeWhile (\<lambda>c. c \<noteq> CHR '':'') (f @ CHR '':'' # v) = f"
    using assms by (auto simp: takeWhile_tail)
  moreover have "dropWhile (\<lambda>c. c \<noteq> CHR '':'') (f @ CHR '':'' # v) = CHR '':'' # v"
    using assms by (auto simp: dropWhile_append3)
  ultimately show ?thesis by (simp add: decode_line_def)
qed

lemma process_attendee_effect:
  "process_attendee ev f v =
     ev\<lparr>status :=
          (case search_partstat f of
             Some st \<Rightarrow>
               if str_contains ''daniel.moreira@autodesk.com'' (lower v) then st
               else status ev
           | None \<Rightarrow> status ev),
        attendees :=
          (case search_mailto v of
             Some em \<Rightarrow> attendees ev @ [\<lparr>att_email = em, att_status = search_partstat f\<rparr>]
           | None \<Rightarrow> attendees ev)\<rparr>"
  by (simp add: process_attendee_def Let_def split: option.splits)

lemma process_field_effect:
  assumes "CHR '';'' \<notin> set nm" "ps = [] \<or> hd ps = CHR '';''"
  shows "process_field ev (nm @ ps) v = field_effect ev nm ps v"
proof -
  have n: "field_name_of (nm @ ps) = nm" using assms by (rule field_name_of_params)
  show ?thesis
    unfolding process_field_def n Let_def field_effect_def ascii_only_def
      process_attendee_effect
    by (simp split: option.splits)
qed

text \<open>
  Claim C4. The parser returns an event list on every input: no line makes it
  raise. On a well-formed calendar text (any lines before, between and after the
  blocks, such as the calendar's own wrapper; each block a \<open>BEGIN:VEVENT\<close> line, a
  body holding neither marker, an \<open>END:VEVENT\<close> line) it returns exactly one event
  per block, in the order of the blocks, and each event is the new event after the
  field decoder has been applied, in order, to the logical lines of the block's
  body. Decoding a field line \<open>NAME[;params]:VALUE\<close> has the effect that the table
  \<open>field_effect\<close> gives for the name; the address searched in a value is the run of
  non-space characters after the first \<open>mailto:\<close>, the status searched in a field
  specification is the run up to the next semicolon or colon after the first
  \<open>PARTSTAT=\<close>, and there is none when the text does not occur.
\<close>

theorem well_formed_blocks_decoded:
  "(\<exists>evs. parse_ics_file ls = Inr evs)
   \<and> (map rstrip_newlines ls = calendar_lines lead blocks rest
        \<and> well_formed_calendar lead blocks rest
      \<longrightarrow> parse_ics_file ls
            = Inr (map (\<lambda>(body, gap). foldl decode_line new_CalendarEvent (logical_lines body))
                     blocks))
   \<and> (CHR '':'' \<notin> set nm \<and> CHR '';'' \<notin> set nm \<and> params_ok ps
      \<longrightarrow> decode_line ev (nm @ ps @ '':'' @ v) = field_effect ev nm ps v)
   \<and> (\<not> str_contains ''mailto:'' p \<and> em \<noteq> [] \<and> list_all (\<lambda>c. \<not> is_space c) em
        \<and> (r = [] \<or> is_space (hd r))
      \<longrightarrow> search_mailto (p @ ''mailto:'' @ em @ r) = Some em)
   \<and> (\<not> str_contains ''mailto:'' w \<longrightarrow> search_mailto w = None)
   \<and> (\<not> str_contains ''PARTSTAT='' q \<and> st \<noteq> []
        \<and> list_all (\<lambda>c. c \<noteq> CHR '';'' \<and> c \<noteq> CHR '':'') st
        \<and> (t = [] \<or> hd t = CHR '';'' \<or> hd t = CHR '':'')
      \<longrightarrow> search_partstat (q @ ''PARTSTAT='' @ st @ t) = Some st)
   \<and> (\<not> str_contains ''PARTSTAT='' fs \<longrightarrow> search_partstat fs = None)"
proof -
  have 1: "\<exists>evs. parse_ics_file ls = Inr evs"
    using handle_lines_ok[OF initial_ok, of "map rstrip_newlines ls"]
    by (auto simp: parse_ics_file_def parse_lines_handle)
  have 2: "parse_ics_file ls
            = Inr (map (\<lambda>(body, gap). foldl decode_line new_CalendarEvent (logical_lines body))
                     blocks)"
    if "map rstrip_newlines ls = calendar_lines lead blocks rest
        \<and> well_formed_calendar lead blocks rest"
  proof -
    from that calendar_decoded[of lead blocks rest] obtain st' where
      "handle_lines initial_state (map rstrip_newlines ls) = Inr st'"
      "events st'
        = map (\<lambda>(body, gap). foldl decode_line new_CalendarEvent (logical_lines body)) blocks"
      by auto
    then show ?thesis by (simp add: parse_ics_file_def parse_lines_handle)
  qed
  have 3: "decode_line ev (nm @ ps @ '':'' @ v) = field_effect ev nm ps v"
    if "CHR '':'' \<notin> set nm \<and> CHR '';'' \<notin> set nm \<and> params_ok ps"
  proof -
    from that have c: "CHR '':'' \<notin> set (nm @ ps)" by (simp add: params_ok_def)
    from that have "process_field ev (nm @ ps) v = field_effect ev nm ps v"
      by (intro process_field_effect) (auto simp: params_ok_def)
    with decode_field_line[OF c, of ev v] show ?thesis by simp
  qed
  have 4: "search_mailto (p @ ''mailto:'' @ em @ r) = Some em"
    if "\<not> str_contains ''mailto:'' p \<and> em \<noteq> [] \<and> list_all (\<lambda>c. \<not> is_space c) em
        \<and> (r = [] \<or> is_space (hd r))"
    using that by (intro search_mailto_found) auto
  have 5: "search_mailto w = None" if "\<not> str_contains ''mailto:'' w"
    using that by (simp add: search_mailto_def re_search_group_none)
  have 6: "search_partstat (q @ ''PARTSTAT='' @ st @ t) = Some st"
    if "\<not> str_contains ''PARTSTAT='' q \<and> st \<noteq> []
        \<and> list_all (\<lambda>c. c \<noteq> CHR '';'' \<and> c \<noteq> CHR '':'') st
        \<and> (t = [] \<or> hd t = CHR '';'' \<or> hd t = CHR '':'')"
    using that by (intro search_partstat_found) auto
  have 7: "search_partstat fs = None" if "\<not> str_contains ''PARTSTAT='' fs"
    using that by (simp add: search_partstat_def re_search_group_none)
  from 1 2 3 4 5 6 7 show ?thesis by blast
qed

theorem well_formed_blocks_decoded_witness:
  "parse_ics_file
     [''BEGIN:VCALENDAR'' @ [CHR 0x0A], ''VERSION:2.0'' @ [CHR 0x0A],
      ''BEGIN:VEVENT'' @ [CHR 0x0A], ''SUMMARY:Team sync'' @ [CHR 0x0A],
      ''DTSTART;TZID=Europe/London:20250101T090000'' @ [CHR 0x0A],
      ''ATTENDEE;PARTSTAT=ACCEPTED;CN=Dan:mailto:Daniel.Moreira@autodesk.com'' @ [CHR 0x0A],
      ''ATTENDEE;CN=Jane:mailto:jane@acme.com'' @ [CHR 0x0A],
      ''LOCATION:Room='' @ [CHR 0x0A], '' 12 '' @ [CHR 0x0A], ''END:VEVENT'' @ [CHR 0x0A],
      ''X-GAP:1'' @ [CHR 0x0A],
      ''BEGIN:VEVENT'' @ [CHR 0x0A], ''UID:7'' @ [CHR 0x0A], ''END:VEVENT'' @ [CHR 0x0A],
      ''END:VCALENDAR'' @ [CHR 0x0A]]
   = Inr [new_CalendarEvent
            \<lparr>summary := ''Team sync'',
             dtstart := ''DTSTART;TZID=Europe/London:20250101T090000'',
             location := ''Room=12'',
             attendees :=
               [\<lparr>att_email = ''Daniel.Moreira@autodesk.com'', att_status = Some ''ACCEPTED''\<rparr>,
                \<lparr>att_email = ''jane@acme.com'', att_status = None\<rparr>],
             status := ''ACCEPTED''\<rparr>,
          new_CalendarEvent\<lparr>uid := ''7''\<rparr>]
   \<and> decode_line new_CalendarEvent
       (''ATTENDEE'' @ '';PARTSTAT=DECLINED;CN=Jane'' @ '':'' @ ''mailto:jane@acme.com'')
     = new_CalendarEvent
         \<lparr>attendees := [\<lparr>att_email = ''jane@acme.com'', att_status = Some ''DECLINED''\<rparr>]\<rparr>"
proof -
  let ?ls = "[''BEGIN:VCALENDAR'' @ [CHR 0x0A], ''VERSION:2.0'' @ [CHR 0x0A],
      ''BEGIN:VEVENT'' @ [CHR 0x0A], ''SUMMARY:Team sync'' @ [CHR 0x0A],
      ''DTSTART;TZID=Europe/London:20250101T090000'' @ [CHR 0x0A],
      ''ATTENDEE;PARTSTAT=ACCEPTED;CN=Dan:mailto:Daniel.Moreira@autodesk.com'' @ [CHR 0x0A],
      ''ATTENDEE;CN=Jane:mailto:jane@acme.com'' @ [CHR 0x0A],
      ''LOCATION:Room='' @ [CHR 0x0A], '' 12 '' @ [CHR 0x0A], ''END:VEVENT'' @ [CHR 0x0A],
      ''X-GAP:1'' @ [CHR 0x0A],
      ''BEGIN:VEVENT'' @ [CHR 0x0A], ''UID:7'' @ [CHR 0x0A], ''END:VEVENT'' @ [CHR 0x0A],
      ''END:VCALENDAR'' @ [CHR 0x0A]]"
  let ?lead = "[''BEGIN:VCALENDAR'', ''VERSION:2.0'']"
  let ?blocks = "[([''SUMMARY:Team sync'', ''DTSTART;TZID=Europe/London:20250101T090000'',
        ''ATTENDEE;PARTSTAT=ACCEPTED;CN=Dan:mailto:Daniel.Moreira@autodesk.com'',
        ''ATTENDEE;CN=Jane:mailto:jane@acme.com'', ''LOCATION:Room='', '' 12 ''],
       [''X-GAP:1'']),
      ([''UID:7''], [])]"
  let ?rest = "[''END:VCALENDAR'']"
  have h1: "map rstrip_newlines ?ls = calendar_lines ?lead ?blocks ?rest"
    by (simp add: rstrip_newlines_def calendar_lines_def vevent_block_def)
  have h2: "well_formed_calendar ?lead ?blocks ?rest"
    by (simp add: well_formed_calendar_def)
  have h3: "map (\<lambda>(body, gap). foldl decode_line new_CalendarEvent (logical_lines body)) ?blocks
      = [new_CalendarEvent
            \<lparr>summary := ''Team sync'',
             dtstart := ''DTSTART;TZID=Europe/London:20250101T090000'',
             location := ''Room=12'',
             attendees :=
               [\<lparr>att_email = ''Daniel.Moreira@autodesk.com'', att_status = Some ''ACCEPTED''\<rparr>,
                \<lparr>att_email = ''jane@acme.com'', att_status = None\<rparr>],
             status := ''ACCEPTED''\<rparr>,
          new_CalendarEvent\<lparr>uid := ''7''\<rparr>]"
    by code_simp
  note inst = well_formed_blocks_decoded
    [where ls = ?ls and lead = ?lead and blocks = ?blocks and rest = ?rest
       and nm = "''ATTENDEE''" and ps = "'';PARTSTAT=DECLINED;CN=Jane''"
       and ev = new_CalendarEvent and v = "''mailto:jane@acme.com''"
       and p = "[]" and em = "''jane@acme.com''" and r = "[]"
       and q = "''ATTENDEE;''" and st = "''DECLINED''" and t = "'';CN=Jane''"]
  from inst[THEN conjunct2, THEN conjunct1, THEN mp, OF conjI, OF h1 h2]
  have a: "parse_ics_file ?ls
      = Inr (map (\<lambda>(body, gap). foldl decode_line new_CalendarEvent (logical_lines body))
               ?blocks)" .
  have k3: "CHR '':'' \<notin> set ''ATTENDEE'' \<and> CHR '';'' \<notin> set ''ATTENDEE''
      \<and> params_ok '';PARTSTAT=DECLINED;CN=Jane''"
    by (simp add: params_ok_def)
  have k4: "\<not> str_contains ''mailto:'' [] \<and> ''jane@acme.com'' \<noteq> []
      \<and> list_all (\<lambda>c. \<not> is_space c) ''jane@acme.com'' \<and> ([] = [] \<or> is_space (hd []))"
    by (simp add: is_space_def)
  have k6: "\<not> str_contains ''PARTSTAT='' ''ATTENDEE;'' \<and> ''DECLINED'' \<noteq> []
      \<and> list_all (\<lambda>c. c \<noteq> CHR '';'' \<and> c \<noteq> CHR '':'') ''DECLINED''
      \<and> ('';CN=Jane'' = [] \<or> hd '';CN=Jane'' = CHR '';'' \<or> hd '';CN=Jane'' = CHR '':'')"
    by simp
  from inst[THEN conjunct2, THEN conjunct2, THEN conjunct1, THEN mp, OF k3]
  have d: "decode_line new_CalendarEvent
       (''ATTENDEE'' @ '';PARTSTAT=DECLINED;CN=Jane'' @ '':'' @ ''mailto:jane@acme.com'')
     = field_effect new_CalendarEvent ''ATTENDEE'' '';PARTSTAT=DECLINED;CN=Jane''
         ''mailto:jane@acme.com''" .
  from inst[THEN conjunct2, THEN conjunct2, THEN conjunct2, THEN conjunct1, THEN mp, OF k4]
  have m: "search_mailto ([] @ ''mailto:'' @ ''jane@acme.com'' @ []) = Some ''jane@acme.com''" .
  from inst[THEN conjunct2, THEN conjunct2, THEN conjunct2, THEN conjunct2, THEN conjunct2,
      THEN conjunct1, THEN mp, OF k6]
  have s: "search_partstat (''ATTENDEE;'' @ ''PARTSTAT='' @ ''DECLINED'' @ '';CN=Jane'')
      = Some ''DECLINED''" .
  have o: "\<not> str_contains ''daniel.moreira@autodesk.com'' (lower ''mailto:jane@acme.com'')"
    by code_simp
  have b: "decode_line new_CalendarEvent
       (''ATTENDEE'' @ '';PARTSTAT=DECLINED;CN=Jane'' @ '':'' @ ''mailto:jane@acme.com'')
     = new_CalendarEvent
         \<lparr>attendees := [\<lparr>att_email = ''jane@acme.com'', att_status = Some ''DECLINED''\<rparr>]\<rparr>"
    unfolding d using m s o by (simp add: field_effect_def new_CalendarEvent_def)
  from a have a': "parse_ics_file ?ls
      = Inr [new_CalendarEvent
            \<lparr>summary := ''Team sync'',
             dtstart := ''DTSTART;TZID=Europe/London:20250101T090000'',
             location := ''Room=12'',
             attendees :=
               [\<lparr>att_email = ''Daniel.Moreira@autodesk.com'', att_status = Some ''ACCEPTED''\<rparr>,
                \<lparr>att_email = ''jane@acme.com'', att_status = None\<rparr>],
             status := ''ACCEPTED''\<rparr>,
          new_CalendarEvent\<lparr>uid := ''7''\<rparr>]"
    by (simp only: h3)
  from a' b show ?thesis by (rule conjI)
qed

subsection \<open>Folded fields\<close>

lemma state_sim_refl: "state_sim a a"
  by (simp add: state_sim_def)

lemma state_sim_pending_eq:
  assumes "state_sim a b" "field_pending a"
  shows "a = b"
  using assms by (simp add: state_sim_def)

lemma dispatch_sim:
  assumes "state_sim a b" "\<not> field_pending a"
  shows "state_sim (dispatch_line a l) (dispatch_line b l)"
  using assms
  by (auto simp: state_sim_def dispatch_line_def Let_def field_pending_def split: option.splits)

lemma handle_line_sim:
  assumes "state_sim a b" "state_ok a"
  shows "\<exists>a' b'. handle_line a l = Inr a' \<and> handle_line b l = Inr b'
           \<and> state_sim a' b' \<and> state_ok a'"
proof (cases "field_pending a")
  case True
  from state_sim_pending_eq[OF assms(1) True] have "a = b" .
  with handle_line_ok[OF assms(2), of l] show ?thesis by (auto simp: state_sim_refl)
next
  case False
  with assms(1) have nb: "\<not> field_pending b" by (simp add: state_sim_def field_pending_def)
  from False nb dispatch_sim[OF assms(1) False, of l] dispatch_ok[OF False, of l]
  show ?thesis by (simp add: handle_not_pending)
qed

lemma handle_lines_sim:
  assumes "state_sim a b" "state_ok a"
  shows "\<exists>a' b'. handle_lines a ls = Inr a' \<and> handle_lines b ls = Inr b' \<and> state_sim a' b'"
  using assms
proof (induction ls arbitrary: a b)
  case Nil
  then show ?case by simp
next
  case (Cons l ls)
  from handle_line_sim[OF Cons.prems, of l] obtain a1 b1 where
    s: "handle_line a l = Inr a1" "handle_line b l = Inr b1" "state_sim a1 b1" "state_ok a1"
    by blast
  from Cons.IH[OF s(3,4)] s(1,2) show ?case by simp
qed

subsection \<open>Stripping a folded line\<close>

lemma rstrip_last: "rstrip s \<noteq> [] \<Longrightarrow> \<not> is_space (last (rstrip s))"
proof -
  assume a: "rstrip s \<noteq> []"
  then have d: "dropWhile is_space (rev s) \<noteq> []" by (simp add: rstrip_def)
  have "last (rstrip s) = hd (dropWhile is_space (rev s))"
    using d by (simp add: rstrip_def last_rev)
  with d show ?thesis using hd_dropWhile[of is_space "rev s"] by simp
qed

lemma rstrip_id: "s = [] \<or> \<not> is_space (last s) \<Longrightarrow> rstrip s = s"
proof (cases s rule: rev_cases)
  case Nil
  then show ?thesis by (simp add: rstrip_def)
next
  case (snoc ys y)
  assume "s = [] \<or> \<not> is_space (last s)"
  with snoc have "\<not> is_space y" by simp
  with snoc show ?thesis by (simp add: rstrip_def)
qed

lemma concat_strip_last:
  "concat (map strip cs) = [] \<or> \<not> is_space (last (concat (map strip cs)))"
proof (induction cs)
  case Nil
  show ?case by simp
next
  case (Cons c cs)
  show ?case
  proof (cases "concat (map strip cs) = []")
    case True
    then show ?thesis using rstrip_last[of "lstrip c"] by (auto simp: strip_def)
  next
    case False
    then have "last (strip c @ concat (map strip cs)) = last (concat (map strip cs))"
      by (rule last_appendR)
    moreover from Cons False have "\<not> is_space (last (concat (map strip cs)))" by blast
    ultimately show ?thesis by simp
  qed
qed

lemma strip_folded:
  assumes "ends_with_equals l"
  shows "strip (l @ concat (map strip cs)) = strip l @ concat (map strip cs)"
proof -
  let ?x = "concat (map strip cs)"
  from assms have lne: "l \<noteq> []" and ll: "last l = CHR ''=''" by (auto simp: ends_with_equals_def)
  have ns: "\<not> is_space (CHR ''='')" by (simp add: is_space_def)
  from lne ll have mem: "CHR ''='' \<in> set l" by (metis last_in_set)
  have ls: "lstrip (l @ ?x) = lstrip l @ ?x"
    using mem ns by (simp add: lstrip_def dropWhile_append1)
  have lsne: "lstrip l \<noteq> []" using mem ns by (auto simp: lstrip_def dropWhile_eq_Nil_conv)
  have "\<exists>p. l = p @ lstrip l" unfolding lstrip_def
    by (metis takeWhile_dropWhile_id)
  then obtain p where "l = p @ lstrip l" ..
  with lsne have "last l = last (lstrip l)" by (metis last_appendR)
  with ll ns have a: "\<not> is_space (last (lstrip l))" by simp
  have sl: "strip l = lstrip l" using a by (simp add: strip_def rstrip_id)
  have "lstrip l @ ?x \<noteq> [] \<and> \<not> is_space (last (lstrip l @ ?x))"
    using lsne a concat_strip_last[of cs] by (cases "?x = []") auto
  then have "rstrip (lstrip l @ ?x) = lstrip l @ ?x" by (simp add: rstrip_id)
  with ls sl show ?thesis by (simp add: strip_def)
qed

lemma closed_ignores:
  assumes "current_event st = None" "\<not> field_pending st"
    and "\<forall>c\<in>set cs. starts_with_space_or_tab c"
  shows "handle_lines st cs = Inr st"
  using assms
proof (induction cs)
  case Nil
  show ?case by simp
next
  case (Cons c cs)
  from Cons.prems(3) have "starts_with_space_or_tab c" by simp
  then have "c \<noteq> ''BEGIN:VEVENT''" by (auto simp: starts_with_space_or_tab_def)
  with Cons.prems(1,2) have "handle_line st c = Inr st"
    by (simp add: handle_not_pending dispatch_closed)
  with Cons show ?case by simp
qed

lemma opener_facts:
  assumes "opens_folded_field l"
  shows "l \<noteq> []" and "CHR '':'' \<in> set l" and "ends_with_equals l"
    and "takeWhile (\<lambda>c. c \<noteq> CHR '':'') l \<noteq> []"
    and "l @ x \<noteq> ''BEGIN:VEVENT''" and "l @ x \<noteq> ''END:VEVENT''"
    and "starts_with_space_or_tab (l @ x) = starts_with_space_or_tab l"
proof -
  from assms show c: "CHR '':'' \<in> set l" and e: "ends_with_equals l"
    by (auto simp: opens_folded_field_def)
  from e show n: "l \<noteq> []" by (simp add: ends_with_equals_def)
  from assms n show "takeWhile (\<lambda>c. c \<noteq> CHR '':'') l \<noteq> []"
    by (cases l) (auto simp: opens_folded_field_def)
  from e n have "CHR ''='' \<in> set l" by (metis ends_with_equals_def last_in_set)
  then have m: "CHR ''='' \<in> set (l @ x)" by simp
  have "CHR ''='' \<notin> set ''BEGIN:VEVENT''" by simp
  with m show "l @ x \<noteq> ''BEGIN:VEVENT''" by metis
  have "CHR ''='' \<notin> set ''END:VEVENT''" by simp
  with m show "l @ x \<noteq> ''END:VEVENT''" by metis
  from n show "starts_with_space_or_tab (l @ x) = starts_with_space_or_tab l"
    by (cases l) (auto simp: starts_with_space_or_tab_def)
qed

lemma enter_line:
  assumes ok: "state_ok s" and np: "\<not> (field_pending s \<and> starts_with_space_or_tab l)"
  shows "\<exists>s'. \<not> field_pending s' \<and> events s' = events s
           \<and> (\<forall>x. starts_with_space_or_tab x = starts_with_space_or_tab l
                 \<longrightarrow> handle_line s x = Inr (dispatch_line s' x))"
proof (cases "field_pending s")
  case False
  then show ?thesis by (auto simp: handle_not_pending)
next
  case True
  with np have nl: "\<not> starts_with_space_or_tab l" by simp
  from True ok obtain ev where ev: "current_event s = Some ev" and cv: "continuation_value s \<noteq> []"
    by (auto simp: state_ok_def)
  from True obtain f where f: "current_field s = Some f"
    by (auto simp: field_pending_def split: option.splits)
  let ?s' = "s\<lparr>current_event := Some (process_field ev f (continuation_value s)),
                current_field := None, continuation_value := []\<rparr>"
  have "\<not> field_pending ?s'" by (simp add: field_pending_def)
  moreover have "events ?s' = events s" by simp
  moreover have "\<forall>x. starts_with_space_or_tab x = starts_with_space_or_tab l
                 \<longrightarrow> handle_line s x = Inr (dispatch_line ?s' x)"
    using handle_flush[OF True f ev cv] nl by simp
  ultimately show ?thesis by blast
qed

lemma fold_round_trip_lines:
  assumes ok: "state_ok s1"
    and op: "opens_folded_field l"
    and cs: "\<forall>c\<in>set cs. starts_with_space_or_tab c"
    and rest: "rest = [] \<or> \<not> starts_with_space_or_tab (hd rest)"
  shows "\<exists>a b. handle_lines s1 (l # cs @ rest) = Inr a
           \<and> handle_lines s1 ((l @ concat (map strip cs)) # rest) = Inr b
           \<and> events a = events b"
proof -
  let ?x = "concat (map strip cs)"
  let ?l' = "l @ ?x"
  let ?f = "takeWhile (\<lambda>c. c \<noteq> CHR '':'') l"
  let ?v = "tl (dropWhile (\<lambda>c. c \<noteq> CHR '':'') l)"
  note of = opener_facts[OF op]
  have sw: "starts_with_space_or_tab ?l' = starts_with_space_or_tab l" by (rule of(7))
  obtain a where a: "handle_lines s1 (l # cs @ rest) = Inr a"
    using handle_lines_ok[OF ok] by blast
  obtain b where b: "handle_lines s1 (?l' # rest) = Inr b"
    using handle_lines_ok[OF ok] by blast
  have "events a = events b"
  proof (cases "field_pending s1 \<and> starts_with_space_or_tab l")
    case True
    let ?s2 = "s1\<lparr>continuation_value := continuation_value s1 @ strip l\<rparr>"
    have h: "handle_line s1 l = Inr ?s2" using True by (simp add: handle_continuation)
    have p2: "field_pending ?s2" using True by (simp add: field_pending_def)
    have "handle_lines ?s2 cs = Inr (?s2\<lparr>continuation_value := continuation_value ?s2 @ ?x\<rparr>)"
      using absorb_continuations[OF p2 cs] .
    then have A: "handle_lines s1 (l # cs @ rest)
        = handle_lines (s1\<lparr>continuation_value := continuation_value s1 @ strip l @ ?x\<rparr>) rest"
      using h by (simp add: handle_lines_append)
    have "handle_line s1 ?l' = Inr (s1\<lparr>continuation_value := continuation_value s1 @ strip ?l'\<rparr>)"
      using True sw by (simp add: handle_continuation)
    then have B: "handle_lines s1 (?l' # rest)
        = handle_lines (s1\<lparr>continuation_value := continuation_value s1 @ strip l @ ?x\<rparr>) rest"
      using strip_folded[OF of(3), of cs] by simp
    from A B a b show ?thesis by simp
  next
    case False
    from enter_line[OF ok False] obtain s where
      np: "\<not> field_pending s" and
      hl: "\<forall>x. starts_with_space_or_tab x = starts_with_space_or_tab l
                 \<longrightarrow> handle_line s1 x = Inr (dispatch_line s x)" by blast
    from hl have h1: "handle_line s1 l = Inr (dispatch_line s l)" by simp
    from hl sw have h2: "handle_line s1 ?l' = Inr (dispatch_line s ?l')" by simp
    show ?thesis
    proof (cases "current_event s")
      case None
      have lB: "l \<noteq> ''BEGIN:VEVENT''" using of(5)[of "[]"] by simp
      have d1: "dispatch_line s l = s" using None lB by (rule dispatch_closed)
      have d2: "dispatch_line s ?l' = s" using None of(5) by (rule dispatch_closed)
      have "handle_lines s cs = Inr s" using None np cs by (rule closed_ignores)
      then have "handle_lines s1 (l # cs @ rest) = handle_lines s rest"
        using h1 d1 by (simp add: handle_lines_append)
      moreover have "handle_lines s1 (?l' # rest) = handle_lines s rest"
        using h2 d2 by simp
      ultimately show ?thesis using a b by simp
    next
      case (Some ev)
      let ?sA = "s\<lparr>current_field := Some ?f, continuation_value := ?v @ ?x\<rparr>"
      let ?s2 = "s\<lparr>current_field := Some ?f, continuation_value := ?v\<rparr>"
      have d1: "dispatch_line s l = ?s2" using Some of(2) of(3) by (rule dispatch_fold)
      have p2: "field_pending ?s2" using of(4) by (simp add: field_pending_def)
      have "handle_lines ?s2 cs = Inr (?s2\<lparr>continuation_value := continuation_value ?s2 @ ?x\<rparr>)"
        using absorb_continuations[OF p2 cs] .
      then have A: "handle_lines s1 (l # cs @ rest) = handle_lines ?sA rest"
        using h1 d1 by (simp add: handle_lines_append)
      have c': "CHR '':'' \<in> set ?l'" using of(2) by simp
      have f': "takeWhile (\<lambda>c. c \<noteq> CHR '':'') ?l' = ?f"
        using of(2) by (simp add: takeWhile_append1)
      have "dropWhile (\<lambda>c. c \<noteq> CHR '':'') l \<noteq> []"
        using of(2) by (simp add: dropWhile_eq_Nil_conv)
      then have v': "tl (dropWhile (\<lambda>c. c \<noteq> CHR '':'') ?l') = ?v @ ?x"
        using of(2) by (simp add: dropWhile_append1)
      show ?thesis
      proof (cases "ends_with_equals ?l'")
        case True
        have "dispatch_line s ?l' = ?sA"
          using dispatch_fold[OF Some c' True] f' v' by simp
        with h2 have "handle_lines s1 (?l' # rest) = handle_lines ?sA rest" by simp
        with A a b show ?thesis by simp
      next
        case False
        let ?ev' = "process_field ev ?f (?v @ ?x)"
        let ?sB = "s\<lparr>current_event := Some ?ev', current_field := None\<rparr>"
        have dl: "decode_line ev ?l' = ?ev'" using decode_unfolded[OF of(2)] by simp
        have "dispatch_line s ?l' = ?sB"
          using dispatch_field[OF Some of(5) of(6) c' False] dl by simp
        with h2 have B: "handle_lines s1 (?l' # rest) = handle_lines ?sB rest" by simp
        show ?thesis
        proof (cases rest)
          case Nil
          with A B a b show ?thesis by auto
        next
          case (Cons r rs)
          with rest have rn: "\<not> starts_with_space_or_tab r" by simp
          let ?sA' = "?sA\<lparr>current_event := Some ?ev', current_field := None,
                           continuation_value := []\<rparr>"
          have pA: "field_pending ?sA" using of(4) by (simp add: field_pending_def)
          have vne: "?v @ ?x \<noteq> []" using folded_value_nonempty[OF of(2) of(3)] by simp
          have "handle_line ?sA r = handle_line ?sA' r"
            using flush_then_same[of ?sA ?f ev r] pA Some vne rn by simp
          then have A': "handle_lines ?sA rest = handle_lines ?sA' rest"
            using Cons by simp
          have sim: "state_sim ?sA' ?sB" by (simp add: state_sim_def field_pending_def)
          have okA: "state_ok ?sA'" by (simp add: state_ok_def field_pending_def)
          from handle_lines_sim[OF sim okA, of rest] obtain a' b' where
            "handle_lines ?sA' rest = Inr a'" "handle_lines ?sB rest = Inr b'" "state_sim a' b'"
            by blast
          with A A' B a b show ?thesis by (simp add: state_sim_def)
        qed
      qed
    qed
  qed
  with a b show ?thesis by blast
qed

text \<open>
  Claim C2, as stated: the value accumulated for a folded field is the first line
  followed by the left-trimmed text of each continuation line. The source appends
  \<open>line.strip()\<close>, which trims both ends: a continuation line with trailing white
  space decodes to a different value than the line unfolded by left-trimming.
\<close>

theorem folded_left_trim_counterexample:
  "parse_ics_file
     [''BEGIN:VEVENT'' @ [CHR 0x0A], ''LOCATION:Room='' @ [CHR 0x0A],
      '' 12 '' @ [CHR 0x0A], '' B'' @ [CHR 0x0A], ''END:VEVENT'' @ [CHR 0x0A]]
     = Inr [new_CalendarEvent\<lparr>location := ''Room=12B''\<rparr>]
   \<and> parse_ics_file
     [''BEGIN:VEVENT'' @ [CHR 0x0A],
      ''LOCATION:Room=''
        @ concat (map (\<lambda>c. lstrip (rstrip_newlines c)) ['' 12 '' @ [CHR 0x0A], '' B'' @ [CHR 0x0A]])
        @ [CHR 0x0A],
      ''END:VEVENT'' @ [CHR 0x0A]]
     = Inr [new_CalendarEvent\<lparr>location := ''Room=12 B''\<rparr>]
   \<and> ''Room=12B'' \<noteq> ''Room=12 B''"
  by code_simp

text \<open>
  Claim C2, amended. Take a line that opens a folded field (it ends with \<open>=\<close> and
  has a non-empty field specification before its first colon), followed by
  continuation lines (each beginning with a space or a tab) and then by the end of
  the input or a line that is not a continuation. The parser returns the same events
  as on the input where these lines are replaced by the single line made of the
  first line followed by the text of each continuation line trimmed of white space
  at both ends, with no separator.
\<close>

theorem folded_field_round_trip:
  assumes "map rstrip_newlines ls = pre @ l # cs @ rest"
    and "map rstrip_newlines ls' = pre @ (l @ concat (map strip cs)) # rest"
    and "opens_folded_field l"
    and "list_all starts_with_space_or_tab cs"
    and "rest = [] \<or> \<not> starts_with_space_or_tab (hd rest)"
  shows "parse_ics_file ls = parse_ics_file ls' \<and> (\<exists>evs. parse_ics_file ls = Inr evs)"
proof -
  obtain s1 where s1: "handle_lines initial_state pre = Inr s1" "state_ok s1"
    using handle_lines_ok[OF initial_ok] by blast
  from assms(4) have cs: "\<forall>c\<in>set cs. starts_with_space_or_tab c" by (simp add: list_all_iff)
  from fold_round_trip_lines[OF s1(2) assms(3) cs assms(5)] obtain a b where
    ab: "handle_lines s1 (l # cs @ rest) = Inr a"
      "handle_lines s1 ((l @ concat (map strip cs)) # rest) = Inr b"
      "events a = events b" by blast
  have "parse_lines initial_state ls = Inr a"
    using assms(1) s1(1) ab(1) by (simp add: parse_lines_handle handle_lines_append)
  moreover have "parse_lines initial_state ls' = Inr b"
    using assms(2) s1(1) ab(2) by (simp add: parse_lines_handle handle_lines_append)
  ultimately show ?thesis using ab(3) by (simp add: parse_ics_file_def)
qed

theorem folded_field_round_trip_witness:
  "parse_ics_file
     [''BEGIN:VEVENT'' @ [CHR 0x0A], ''LOCATION:Room='' @ [CHR 0x0A],
      '' 12 '' @ [CHR 0x0A], [CHR 0x09] @ ''B'' @ [CHR 0x0A], ''END:VEVENT'' @ [CHR 0x0A]]
   = Inr [new_CalendarEvent\<lparr>location := ''Room=12B''\<rparr>]"
proof -
  let ?ls = "[''BEGIN:VEVENT'' @ [CHR 0x0A], ''LOCATION:Room='' @ [CHR 0x0A],
      '' 12 '' @ [CHR 0x0A], [CHR 0x09] @ ''B'' @ [CHR 0x0A], ''END:VEVENT'' @ [CHR 0x0A]]"
  let ?ls' = "[''BEGIN:VEVENT'' @ [CHR 0x0A], ''LOCATION:Room=12B'' @ [CHR 0x0A],
      ''END:VEVENT'' @ [CHR 0x0A]]"
  have h1: "map rstrip_newlines ?ls
      = [''BEGIN:VEVENT''] @ ''LOCATION:Room='' # ['' 12 '', [CHR 0x09] @ ''B''] @ [''END:VEVENT'']"
    by (simp add: rstrip_newlines_def)
  have h2: "map rstrip_newlines ?ls'
      = [''BEGIN:VEVENT'']
        @ (''LOCATION:Room='' @ concat (map strip ['' 12 '', [CHR 0x09] @ ''B'']))
        # [''END:VEVENT'']"
    by (simp add: rstrip_newlines_def strip_def lstrip_def rstrip_def is_space_def)
  have h3: "opens_folded_field ''LOCATION:Room=''"
    by (simp add: opens_folded_field_def ends_with_equals_def)
  have h4: "list_all starts_with_space_or_tab ['' 12 '', [CHR 0x09] @ ''B'']"
    by (simp add: starts_with_space_or_tab_def)
  have h5: "[''END:VEVENT''] = [] \<or> \<not> starts_with_space_or_tab (hd [''END:VEVENT''])"
    by (simp add: starts_with_space_or_tab_def)
  have h6: "parse_ics_file ?ls' = Inr [new_CalendarEvent\<lparr>location := ''Room=12B''\<rparr>]"
    by code_simp
  from folded_field_round_trip[OF h1 h2 h3 h4 h5] h6 show ?thesis by simp
qed

section \<open>The per-category aggregates\<close>










section \<open>Stakeholder hours\<close>

lemma track_attendee_hours:
  "stakeholder_hours (track_attendee e m a) k =
     stakeholder_hours m k
     + (if \<not> is_self a \<and> stakeholder_key a = k then get_duration_hours e else 0)"
  by (simp add: track_attendee_def stakeholder_hours_def Let_def new_stakeholder_def
      split: option.splits)

lemma track_attendee_dom:
  "(track_attendee e m a k = None) =
     (m k = None \<and> \<not> (\<not> is_self a \<and> stakeholder_key a = k))"
  by (simp add: track_attendee_def Let_def)

lemma track_attendees_hours:
  "stakeholder_hours (foldl (track_attendee e) m as) k =
     stakeholder_hours m k
     + of_nat (length (filter (\<lambda>a. \<not> is_self a \<and> stakeholder_key a = k) as))
       * get_duration_hours e"
proof (induction as arbitrary: m)
  case Nil
  show ?case by simp
next
  case (Cons a as)
  show ?case by (simp add: Cons.IH track_attendee_hours algebra_simps)
qed

lemma track_attendees_dom:
  "(foldl (track_attendee e) m as k = None) =
     (m k = None \<and> filter (\<lambda>a. \<not> is_self a \<and> stakeholder_key a = k) as = [])"
proof (induction as arbitrary: m)
  case Nil
  show ?case by simp
next
  case (Cons a as)
  show ?case by (auto simp add: Cons.IH track_attendee_dom)
qed

lemma track_event_hours:
  "stakeholder_hours (track_event m e) k =
     stakeholder_hours m k + of_nat (attendance k e) * get_duration_hours e"
  by (simp add: track_event_def attendance_def track_attendees_hours)

lemma track_event_dom:
  "(track_event m e k = None) = (m k = None \<and> attendance k e = 0)"
  by (simp add: track_event_def attendance_def track_attendees_dom)

lemma track_events_hours:
  "stakeholder_hours (foldl track_event m es) k =
     stakeholder_hours m k
     + sum_list (map (\<lambda>e. of_nat (attendance k e) * get_duration_hours e) es)"
proof (induction es arbitrary: m)
  case Nil
  show ?case by simp
next
  case (Cons e es)
  show ?case by (simp add: Cons.IH track_event_hours)
qed

lemma track_events_dom:
  "(foldl track_event m es k = None) =
     (m k = None \<and> list_all (\<lambda>e. attendance k e = 0) es)"
proof (induction es arbitrary: m)
  case Nil
  show ?case by simp
next
  case (Cons e es)
  show ?case by (auto simp add: Cons.IH track_event_dom)
qed

lemma at_most_once_sum:
  "list_all (\<lambda>e. attendance k e \<le> 1) es \<Longrightarrow>
   sum_list (map (\<lambda>e. of_nat (attendance k e) * get_duration_hours e) es)
   = sum_list (map get_duration_hours (filter (\<lambda>e. attendance k e \<noteq> 0) es))"
proof (induction es)
  case Nil
  show ?case by simp
next
  case (Cons e es)
  from Cons.prems have "attendance k e = 0 \<or> attendance k e = 1" by auto
  with Cons show ?case by auto
qed

text \<open>
  Claim C9, as stated: the hours of a person equal the sum of the durations of the
  work-relevant events in which the person appears. The loop adds the duration once
  for every attendee entry, and the source does not remove repeated attendee lines:
  a one-hour event that lists the same attendee twice gives that person two hours.
\<close>

theorem stakeholder_hours_counterexample:
  "stakeholder_hours (stakeholders (analyze_stakeholders [((new_CalendarEvent :: stakeholder_attendee CalendarEvent)
        \<lparr>summary := ''Customer QBR'', dtstart := ''DTSTART:20250101T090000'',
         dtend := ''DTEND:20250101T100000'', busy_status := ''BUSY'',
         attendees := [\<lparr>email = ''Daniel.Moreira@autodesk.com'', name = ''Daniel Moreira'', pstatus = ''ACCEPTED''\<rparr>,
           \<lparr>email = ''jane@acme.com'', name = ''Jane Doe'', pstatus = ''ACCEPTED''\<rparr>,
           \<lparr>email = ''jane@acme.com'', name = ''Jane Doe'', pstatus = ''ACCEPTED''\<rparr>]\<rparr>)])) ''Jane Doe'' = 2
   \<and> spec_stakeholder_hours [((new_CalendarEvent :: stakeholder_attendee CalendarEvent)
        \<lparr>summary := ''Customer QBR'', dtstart := ''DTSTART:20250101T090000'',
         dtend := ''DTEND:20250101T100000'', busy_status := ''BUSY'',
         attendees := [\<lparr>email = ''Daniel.Moreira@autodesk.com'', name = ''Daniel Moreira'', pstatus = ''ACCEPTED''\<rparr>,
           \<lparr>email = ''jane@acme.com'', name = ''Jane Doe'', pstatus = ''ACCEPTED''\<rparr>,
           \<lparr>email = ''jane@acme.com'', name = ''Jane Doe'', pstatus = ''ACCEPTED''\<rparr>]\<rparr>)] ''Jane Doe'' = 1"
  by code_simp

text \<open>
  Claim C9, amended. A person is a key of the table: the attendee's name, or the
  email when the name is empty. An attendee entry is skipped when its lower-cased
  email contains \<open>daniel.moreira\<close>. For every key, the accumulated hours are the sum,
  over the work-relevant events, of the event's duration times the number of kept
  attendee entries of the event under that key; the key has no record exactly when
  no work-relevant event has a kept entry under it, so skipped entries accumulate
  nothing. When every work-relevant event has at most one kept entry under the key,
  the hours are the sum of the durations of the work-relevant events in which the
  key appears.
\<close>

theorem stakeholder_hours_weighted:
  "stakeholder_hours (stakeholders (analyze_stakeholders evs)) k
     = sum_list (map (\<lambda>e. of_nat (attendance k e) * get_duration_hours e)
         (filter is_work_relevant evs))
   \<and> ((stakeholders (analyze_stakeholders evs) k = None)
        = list_all (\<lambda>e. attendance k e = 0) (filter is_work_relevant evs))
   \<and> (list_all (\<lambda>e. attendance k e \<le> 1) (filter is_work_relevant evs)
        \<longrightarrow> stakeholder_hours (stakeholders (analyze_stakeholders evs)) k
            = spec_stakeholder_hours evs k)"
proof -
  let ?w = "filter is_work_relevant evs"
  have e0: "stakeholder_hours Map.empty k = 0" by (simp add: stakeholder_hours_def)
  have a: "stakeholder_hours (stakeholders (analyze_stakeholders evs)) k
     = sum_list (map (\<lambda>e. of_nat (attendance k e) * get_duration_hours e) ?w)"
    by (simp add: analyze_stakeholders_def Let_def track_events_hours e0)
  have b: "(stakeholders (analyze_stakeholders evs) k = None)
        = list_all (\<lambda>e. attendance k e = 0) ?w"
    by (simp add: analyze_stakeholders_def Let_def track_events_dom)
  have f: "filter (\<lambda>e. attendance k e \<noteq> 0) ?w
        = filter (\<lambda>e. is_work_relevant e \<and> attendance k e \<noteq> 0) evs"
    by (simp add: conj_commute)
  have c: "stakeholder_hours (stakeholders (analyze_stakeholders evs)) k
            = spec_stakeholder_hours evs k"
    if "list_all (\<lambda>e. attendance k e \<le> 1) ?w"
    using a at_most_once_sum[OF that] f by (simp add: spec_stakeholder_hours_def)
  from a b c show ?thesis by blast
qed

theorem stakeholder_hours_weighted_witness:
  "stakeholder_hours (stakeholders (analyze_stakeholders [((new_CalendarEvent :: stakeholder_attendee CalendarEvent)
        \<lparr>summary := ''Customer QBR'', dtstart := ''DTSTART:20250101T090000'',
         dtend := ''DTEND:20250101T100000'', busy_status := ''BUSY'',
         attendees := [\<lparr>email = ''Daniel.Moreira@autodesk.com'', name = ''Daniel Moreira'', pstatus = ''ACCEPTED''\<rparr>,
           \<lparr>email = ''jane@acme.com'', name = ''Jane Doe'', pstatus = ''ACCEPTED''\<rparr>]\<rparr>), ((new_CalendarEvent :: stakeholder_attendee CalendarEvent)
        \<lparr>summary := ''Customer QBR'', dtstart := ''DTSTART:20250101T090000'',
         dtend := ''DTEND:20250101T100000'', busy_status := ''BUSY'',
         attendees := [\<lparr>email = ''Daniel.Moreira@autodesk.com'', name = ''Daniel Moreira'', pstatus = ''ACCEPTED''\<rparr>,
           \<lparr>email = ''jane@acme.com'', name = ''Jane Doe'', pstatus = ''ACCEPTED''\<rparr>]\<rparr>)])) ''Jane Doe'' = 2
   \<and> stakeholders (analyze_stakeholders [((new_CalendarEvent :: stakeholder_attendee CalendarEvent)
        \<lparr>summary := ''Customer QBR'', dtstart := ''DTSTART:20250101T090000'',
         dtend := ''DTEND:20250101T100000'', busy_status := ''BUSY'',
         attendees := [\<lparr>email = ''Daniel.Moreira@autodesk.com'', name = ''Daniel Moreira'', pstatus = ''ACCEPTED''\<rparr>,
           \<lparr>email = ''jane@acme.com'', name = ''Jane Doe'', pstatus = ''ACCEPTED''\<rparr>]\<rparr>), ((new_CalendarEvent :: stakeholder_attendee CalendarEvent)
        \<lparr>summary := ''Customer QBR'', dtstart := ''DTSTART:20250101T090000'',
         dtend := ''DTEND:20250101T100000'', busy_status := ''BUSY'',
         attendees := [\<lparr>email = ''Daniel.Moreira@autodesk.com'', name = ''Daniel Moreira'', pstatus = ''ACCEPTED''\<rparr>,
           \<lparr>email = ''jane@acme.com'', name = ''Jane Doe'', pstatus = ''ACCEPTED''\<rparr>]\<rparr>)]) ''Daniel Moreira'' = None"
proof -
  have h: "list_all (\<lambda>e. attendance ''Jane Doe'' e \<le> 1) (filter is_work_relevant [((new_CalendarEvent :: stakeholder_attendee CalendarEvent)
        \<lparr>summary := ''Customer QBR'', dtstart := ''DTSTART:20250101T090000'',
         dtend := ''DTEND:20250101T100000'', busy_status := ''BUSY'',
         attendees := [\<lparr>email = ''Daniel.Moreira@autodesk.com'', name = ''Daniel Moreira'', pstatus = ''ACCEPTED''\<rparr>,
           \<lparr>email = ''jane@acme.com'', name = ''Jane Doe'', pstatus = ''ACCEPTED''\<rparr>]\<rparr>), ((new_CalendarEvent :: stakeholder_attendee CalendarEvent)
        \<lparr>summary := ''Customer QBR'', dtstart := ''DTSTART:20250101T090000'',
         dtend := ''DTEND:20250101T100000'', busy_status := ''BUSY'',
         attendees := [\<lparr>email = ''Daniel.Moreira@autodesk.com'', name = ''Daniel Moreira'', pstatus = ''ACCEPTED''\<rparr>,
           \<lparr>email = ''jane@acme.com'', name = ''Jane Doe'', pstatus = ''ACCEPTED''\<rparr>]\<rparr>)])"
    by code_simp
  have s: "spec_stakeholder_hours [((new_CalendarEvent :: stakeholder_attendee CalendarEvent)
        \<lparr>summary := ''Customer QBR'', dtstart := ''DTSTART:20250101T090000'',
         dtend := ''DTEND:20250101T100000'', busy_status := ''BUSY'',
         attendees := [\<lparr>email = ''Daniel.Moreira@autodesk.com'', name = ''Daniel Moreira'', pstatus = ''ACCEPTED''\<rparr>,
           \<lparr>email = ''jane@acme.com'', name = ''Jane Doe'', pstatus = ''ACCEPTED''\<rparr>]\<rparr>), ((new_CalendarEvent :: stakeholder_attendee CalendarEvent)
        \<lparr>summary := ''Customer QBR'', dtstart := ''DTSTART:20250101T090000'',
         dtend := ''DTEND:20250101T100000'', busy_status := ''BUSY'',
         attendees := [\<lparr>email = ''Daniel.Moreira@autodesk.com'', name = ''Daniel Moreira'', pstatus = ''ACCEPTED''\<rparr>,
           \<lparr>email = ''jane@acme.com'', name = ''Jane Doe'', pstatus = ''ACCEPTED''\<rparr>]\<rparr>)] ''Jane Doe'' = 2"
    by code_simp
  have n: "list_all (\<lambda>e. attendance ''Daniel Moreira'' e = 0) (filter is_work_relevant [((new_CalendarEvent :: stakeholder_attendee CalendarEvent)
        \<lparr>summary := ''Customer QBR'', dtstart := ''DTSTART:20250101T090000'',
         dtend := ''DTEND:20250101T100000'', busy_status := ''BUSY'',
         attendees := [\<lparr>email = ''Daniel.Moreira@autodesk.com'', name = ''Daniel Moreira'', pstatus = ''ACCEPTED''\<rparr>,
           \<lparr>email = ''jane@acme.com'', name = ''Jane Doe'', pstatus = ''ACCEPTED''\<rparr>]\<rparr>), ((new_CalendarEvent :: stakeholder_attendee CalendarEvent)
        \<lparr>summary := ''Customer QBR'', dtstart := ''DTSTART:20250101T090000'',
         dtend := ''DTEND:20250101T100000'', busy_status := ''BUSY'',
         attendees := [\<lparr>email = ''Daniel.Moreira@autodesk.com'', name = ''Daniel Moreira'', pstatus = ''ACCEPTED''\<rparr>,
           \<lparr>email = ''jane@acme.com'', name = ''Jane Doe'', pstatus = ''ACCEPTED''\<rparr>]\<rparr>)])"
    by code_simp
  from stakeholder_hours_weighted[of "[((new_CalendarEvent :: stakeholder_attendee CalendarEvent)
        \<lparr>summary := ''Customer QBR'', dtstart := ''DTSTART:20250101T090000'',
         dtend := ''DTEND:20250101T100000'', busy_status := ''BUSY'',
         attendees := [\<lparr>email = ''Daniel.Moreira@autodesk.com'', name = ''Daniel Moreira'', pstatus = ''ACCEPTED''\<rparr>,
           \<lparr>email = ''jane@acme.com'', name = ''Jane Doe'', pstatus = ''ACCEPTED''\<rparr>]\<rparr>), ((new_CalendarEvent :: stakeholder_attendee CalendarEvent)
        \<lparr>summary := ''Customer QBR'', dtstart := ''DTSTART:20250101T090000'',
         dtend := ''DTEND:20250101T100000'', busy_status := ''BUSY'',
         attendees := [\<lparr>email = ''Daniel.Moreira@autodesk.com'', name = ''Daniel Moreira'', pstatus = ''ACCEPTED''\<rparr>,
           \<lparr>email = ''jane@acme.com'', name = ''Jane Doe'', pstatus = ''ACCEPTED''\<rparr>]\<rparr>)]" "''Jane Doe''"] h s
  have 1: "stakeholder_hours (stakeholders (analyze_stakeholders [((new_CalendarEvent :: stakeholder_attendee CalendarEvent)
        \<lparr>summary := ''Customer QBR'', dtstart := ''DTSTART:20250101T090000'',
         dtend := ''DTEND:20250101T100000'', busy_status := ''BUSY'',
         attendees := [\<lparr>email = ''Daniel.Moreira@autodesk.com'', name = ''Daniel Moreira'', pstatus = ''ACCEPTED''\<rparr>,
           \<lparr>email = ''jane@acme.com'', name = ''Jane Doe'', pstatus = ''ACCEPTED''\<rparr>]\<rparr>), ((new_CalendarEvent :: stakeholder_attendee CalendarEvent)
        \<lparr>summary := ''Customer QBR'', dtstart := ''DTSTART:20250101T090000'',
         dtend := ''DTEND:20250101T100000'', busy_status := ''BUSY'',
         attendees := [\<lparr>email = ''Daniel.Moreira@autodesk.com'', name = ''Daniel Moreira'', pstatus = ''ACCEPTED''\<rparr>,
           \<lparr>email = ''jane@acme.com'', name = ''Jane Doe'', pstatus = ''ACCEPTED''\<rparr>]\<rparr>)])) ''Jane Doe'' = 2"
    by simp
  from stakeholder_hours_weighted[of "[((new_CalendarEvent :: stakeholder_attendee CalendarEvent)
        \<lparr>summary := ''Customer QBR'', dtstart := ''DTSTART:20250101T090000'',
         dtend := ''DTEND:20250101T100000'', busy_status := ''BUSY'',
         attendees := [\<lparr>email = ''Daniel.Moreira@autodesk.com'', name = ''Daniel Moreira'', pstatus = ''ACCEPTED''\<rparr>,
           \<lparr>email = ''jane@acme.com'', name = ''Jane Doe'', pstatus = ''ACCEPTED''\<rparr>]\<rparr>), ((new_CalendarEvent :: stakeholder_attendee CalendarEvent)
        \<lparr>summary := ''Customer QBR'', dtstart := ''DTSTART:20250101T090000'',
         dtend := ''DTEND:20250101T100000'', busy_status := ''BUSY'',
         attendees := [\<lparr>email = ''Daniel.Moreira@autodesk.com'', name = ''Daniel Moreira'', pstatus = ''ACCEPTED''\<rparr>,
           \<lparr>email = ''jane@acme.com'', name = ''Jane Doe'', pstatus = ''ACCEPTED''\<rparr>]\<rparr>)]" "''Daniel Moreira''"] n
  have 2: "stakeholders (analyze_stakeholders [((new_CalendarEvent :: stakeholder_attendee CalendarEvent)
        \<lparr>summary := ''Customer QBR'', dtstart := ''DTSTART:20250101T090000'',
         dtend := ''DTEND:20250101T100000'', busy_status := ''BUSY'',
         attendees := [\<lparr>email = ''Daniel.Moreira@autodesk.com'', name = ''Daniel Moreira'', pstatus = ''ACCEPTED''\<rparr>,
           \<lparr>email = ''jane@acme.com'', name = ''Jane Doe'', pstatus = ''ACCEPTED''\<rparr>]\<rparr>), ((new_CalendarEvent :: stakeholder_attendee CalendarEvent)
        \<lparr>summary := ''Customer QBR'', dtstart := ''DTSTART:20250101T090000'',
         dtend := ''DTEND:20250101T100000'', busy_status := ''BUSY'',
         attendees := [\<lparr>email = ''Daniel.Moreira@autodesk.com'', name = ''Daniel Moreira'', pstatus = ''ACCEPTED''\<rparr>,
           \<lparr>email = ''jane@acme.com'', name = ''Jane Doe'', pstatus = ''ACCEPTED''\<rparr>]\<rparr>)]) ''Daniel Moreira'' = None"
    by blast
  from 1 2 show ?thesis by blast
qed

section \<open>Hours by company\<close>

lemma bucket_update_all:
  "b\<lparr>bucket_count := x, bucket_hours := y\<rparr> = \<lparr>bucket_count = x, bucket_hours = y\<rparr>"
  by (cases b) simp

lemma add_company_result:
  assumes "n \<noteq> 0"
  shows "add_company d n m c =
         Inr (m(c \<mapsto> \<lparr>bucket_count = bucket_count_of m c + 1,
                        bucket_hours = bucket_hours_of m c + d / of_nat n\<rparr>))"
  using assms
  by (simp add: add_company_def py_div_def Let_def bucket_count_of_def bucket_hours_of_def
      new_bucket_def bucket_update_all split: option.splits)

lemma add_companies_result:
  assumes "n \<noteq> 0"
  shows "\<exists>m'. add_companies d n m cs = Inr m'
           \<and> (\<forall>c. bucket_hours_of m' c
                    = bucket_hours_of m c + of_nat (count_list cs c) * (d / of_nat n))
           \<and> (\<forall>c. bucket_count_of m' c = bucket_count_of m c + count_list cs c)
           \<and> (\<forall>c. (m' c = None) = (m c = None \<and> c \<notin> set cs))"
proof (induction cs arbitrary: m)
  case Nil
  show ?case by simp
next
  case (Cons x xs)
  define q where "q = d / of_nat n"
  let ?m1 = "m(x \<mapsto> \<lparr>bucket_count = bucket_count_of m x + 1,
                        bucket_hours = bucket_hours_of m x + q\<rparr>)"
  have s: "add_company d n m x = Inr ?m1"
    unfolding q_def using assms by (rule add_company_result)
  from Cons.IH[of ?m1] obtain m' where
    m': "add_companies d n ?m1 xs = Inr m'"
      "\<forall>c. bucket_hours_of m' c = bucket_hours_of ?m1 c + of_nat (count_list xs c) * q"
      "\<forall>c. bucket_count_of m' c = bucket_count_of ?m1 c + count_list xs c"
      "\<forall>c. (m' c = None) = (?m1 c = None \<and> c \<notin> set xs)"
    unfolding q_def by blast
  have h1: "bucket_hours_of ?m1 c = (if c = x then bucket_hours_of m x + q else bucket_hours_of m c)"
    for c by (simp add: bucket_hours_of_def)
  have c1: "bucket_count_of ?m1 c = (if c = x then bucket_count_of m x + 1 else bucket_count_of m c)"
    for c by (simp add: bucket_count_of_def)
  have 1: "add_companies d n m (x # xs) = Inr m'" using s m'(1) by simp
  have 2: "bucket_hours_of m' c = bucket_hours_of m c + of_nat (count_list (x # xs) c) * q" for c
  proof -
    from m'(2) have "bucket_hours_of m' c = bucket_hours_of ?m1 c + of_nat (count_list xs c) * q"
      by blast
    then show ?thesis unfolding h1 by (simp add: algebra_simps)
  qed
  have 3: "bucket_count_of m' c = bucket_count_of m c + count_list (x # xs) c" for c
  proof -
    from m'(3) have "bucket_count_of m' c = bucket_count_of ?m1 c + count_list xs c" by blast
    then show ?thesis unfolding c1 by simp
  qed
  have 4: "(m' c = None) = (m c = None \<and> c \<notin> set (x # xs))" for c
    using m'(4) by auto
  from 1 2 3 4 show ?case unfolding q_def by blast
qed

lemma event_companies_distinct: "distinct (event_companies e)"
  by (simp add: event_companies_def)

lemma event_companies_nonempty: "attendees e \<noteq> [] \<Longrightarrow> event_companies e \<noteq> []"
  by (simp add: event_companies_def)

lemma work_relevant_has_attendees: "is_work_relevant e \<Longrightarrow> attendees e \<noteq> []"
  by (auto simp: is_work_relevant_def Let_def split: if_splits)

lemma count_list_distinct:
  "distinct cs \<Longrightarrow> count_list cs c = (if c \<in> set cs then 1 else 0)"
  by (induction cs) auto

lemma by_company_event_result:
  "\<exists>m'. by_company_event m e = Inr m'
     \<and> (\<forall>c. bucket_hours_of m' c = bucket_hours_of m c + company_share e c)
     \<and> (\<forall>c. bucket_count_of m' c
            = bucket_count_of m c + (if c \<in> set (event_companies e) then 1 else 0))
     \<and> (\<forall>c. (m' c = None) = (m c = None \<and> c \<notin> set (event_companies e)))"
proof (cases "event_companies e = []")
  case True
  then show ?thesis by (simp add: by_company_event_def company_share_def)
next
  case False
  let ?cs = "event_companies e"
  define q where "q = get_duration_hours e / of_nat (length ?cs)"
  from False have n: "length ?cs \<noteq> 0" by simp
  from add_companies_result[OF n, of "get_duration_hours e" m ?cs] obtain m' where
    m': "add_companies (get_duration_hours e) (length ?cs) m ?cs = Inr m'"
      "\<forall>c. bucket_hours_of m' c = bucket_hours_of m c + of_nat (count_list ?cs c) * q"
      "\<forall>c. bucket_count_of m' c = bucket_count_of m c + count_list ?cs c"
      "\<forall>c. (m' c = None) = (m c = None \<and> c \<notin> set ?cs)"
    unfolding q_def by blast
  note cl = count_list_distinct[OF event_companies_distinct, of e]
  have sh: "company_share e c = of_nat (count_list ?cs c) * q" for c
    unfolding q_def by (simp add: company_share_def cl)
  have 1: "by_company_event m e = Inr m'" using m'(1) by (simp add: by_company_event_def Let_def)
  have 2: "\<forall>c. bucket_hours_of m' c = bucket_hours_of m c + company_share e c"
    using m'(2) by (simp add: sh)
  have 3: "\<forall>c. bucket_count_of m' c
            = bucket_count_of m c + (if c \<in> set ?cs then 1 else 0)"
    using m'(3) by (simp add: cl)
  from 1 2 3 m'(4) show ?thesis by blast
qed

lemma by_company_events_result:
  "\<exists>m'. by_company_events m es = Inr m'
     \<and> (\<forall>c. bucket_hours_of m' c
            = bucket_hours_of m c + sum_list (map (\<lambda>e. company_share e c) es))"
proof (induction es arbitrary: m)
  case Nil
  show ?case by simp
next
  case (Cons e es)
  from by_company_event_result[of m e] obtain m1 where
    m1: "by_company_event m e = Inr m1"
      "\<forall>c. bucket_hours_of m1 c = bucket_hours_of m c + company_share e c" by blast
  from Cons.IH[of m1] obtain m' where
    m': "by_company_events m1 es = Inr m'"
      "\<forall>c. bucket_hours_of m' c
            = bucket_hours_of m1 c + sum_list (map (\<lambda>e. company_share e c) es)" by blast
  have "by_company_events m (e # es) = Inr m'" using m1(1) m'(1) by simp
  moreover have "\<forall>c. bucket_hours_of m' c
            = bucket_hours_of m c + sum_list (map (\<lambda>e. company_share e c) (e # es))"
    using m1(2) m'(2) by simp
  ultimately show ?case by blast
qed

lemma shares_sum:
  assumes "event_companies e \<noteq> []"
  shows "sum_list (map (company_share e) (event_companies e)) = get_duration_hours e"
proof -
  let ?cs = "event_companies e"
  let ?k = "get_duration_hours e / of_nat (length ?cs)"
  have "\<And>c. c \<in> set ?cs \<Longrightarrow> company_share e c = ?k"
    by (simp add: company_share_def)
  then have "map (company_share e) ?cs = map (\<lambda>c. ?k) ?cs"
    by (intro map_cong refl)
  then have "sum_list (map (company_share e) ?cs) = of_nat (length ?cs) * ?k"
    by (simp only: sum_list_triv)
  also have "\<dots> = get_duration_hours e" using assms by simp
  finally show ?thesis .
qed

text \<open>
  Claim C10. The by-company aggregation never divides by zero: it returns a table
  for every event sequence, and the hours of an organization in it are the sum of
  the shares the work-relevant events give it. A work-relevant event has at least
  one attendee, hence at least one distinct organization; alone it gives each of
  its distinct organizations one count and its duration divided by their number,
  and these shares add up to its duration.
\<close>

theorem by_company_split:
  "(\<exists>m. analyze_time_patterns_by_company evs = Inr m
        \<and> (\<forall>c. bucket_hours_of m c
               = sum_list (map (\<lambda>e. company_share e c) (filter is_work_relevant evs))))
   \<and> (is_work_relevant e \<longrightarrow>
        attendees e \<noteq> [] \<and> event_companies e \<noteq> [] \<and> length (event_companies e) \<noteq> 0
        \<and> (\<exists>m. by_company_event Map.empty e = Inr m
              \<and> (\<forall>c\<in>set (event_companies e).
                    m c = Some \<lparr>bucket_count = 1,
                                bucket_hours = get_duration_hours e
                                               / of_nat (length (event_companies e))\<rparr>))
        \<and> sum_list (map (company_share e) (event_companies e)) = get_duration_hours e)"
proof -
  have e0: "bucket_hours_of Map.empty c = 0" for c by (simp add: bucket_hours_of_def)
  have c0: "bucket_count_of Map.empty c = 0" for c by (simp add: bucket_count_of_def)
  have 1: "\<exists>m. analyze_time_patterns_by_company evs = Inr m
        \<and> (\<forall>c. bucket_hours_of m c
               = sum_list (map (\<lambda>e. company_share e c) (filter is_work_relevant evs)))"
    using by_company_events_result[of Map.empty "filter is_work_relevant evs"]
    by (simp add: analyze_time_patterns_by_company_def e0)
  have 2: "attendees e \<noteq> [] \<and> event_companies e \<noteq> [] \<and> length (event_companies e) \<noteq> 0
        \<and> (\<exists>m. by_company_event Map.empty e = Inr m
              \<and> (\<forall>c\<in>set (event_companies e).
                    m c = Some \<lparr>bucket_count = 1,
                                bucket_hours = get_duration_hours e
                                               / of_nat (length (event_companies e))\<rparr>))
        \<and> sum_list (map (company_share e) (event_companies e)) = get_duration_hours e"
    if w: "is_work_relevant e"
  proof -
    from w have a: "attendees e \<noteq> []" by (rule work_relevant_has_attendees)
    then have ne: "event_companies e \<noteq> []" by (rule event_companies_nonempty)
    from by_company_event_result[of Map.empty e] obtain m where
      m: "by_company_event Map.empty e = Inr m"
        "\<forall>c. bucket_hours_of m c = bucket_hours_of Map.empty c + company_share e c"
        "\<forall>c. bucket_count_of m c
            = bucket_count_of Map.empty c + (if c \<in> set (event_companies e) then 1 else 0)"
        "\<forall>c. (m c = None) = (Map.empty c = None \<and> c \<notin> set (event_companies e))"
      by blast
    have "m c = Some \<lparr>bucket_count = 1,
                      bucket_hours = get_duration_hours e
                                     / of_nat (length (event_companies e))\<rparr>"
      if c: "c \<in> set (event_companies e)" for c
    proof -
      from m(4) c obtain b where b: "m c = Some b" by auto
      from m(2) have "bucket_hours_of m c = bucket_hours_of Map.empty c + company_share e c"
        by blast
      with b c have "bucket_hours b
          = get_duration_hours e / of_nat (length (event_companies e))"
        by (simp add: bucket_hours_of_def company_share_def)
      moreover from m(3) have "bucket_count_of m c
            = bucket_count_of Map.empty c + (if c \<in> set (event_companies e) then 1 else 0)"
        by blast
      with b c have "bucket_count b = 1"
        by (simp add: bucket_count_of_def)
      ultimately show ?thesis using b by simp
    qed
    with m(1) a ne shares_sum[OF ne] show ?thesis by auto
  qed
  from 1 2 show ?thesis by blast
qed

theorem by_company_split_witness:
  "event_companies ((new_CalendarEvent :: stakeholder_attendee CalendarEvent)
        \<lparr>summary := ''Customer QBR'', dtstart := ''DTSTART:20250101T090000'',
         dtend := ''DTEND:20250101T100000'', busy_status := ''BUSY'',
         attendees := [\<lparr>email = ''Daniel.Moreira@autodesk.com'', name = ''Daniel Moreira'', pstatus = ''ACCEPTED''\<rparr>,
           \<lparr>email = ''jane@acme.com'', name = ''Jane Doe'', pstatus = ''ACCEPTED''\<rparr>]\<rparr>) = [''Autodesk (Internal)'', ''Acme'']
   \<and> sum_list (map (company_share ((new_CalendarEvent :: stakeholder_attendee CalendarEvent)
        \<lparr>summary := ''Customer QBR'', dtstart := ''DTSTART:20250101T090000'',
         dtend := ''DTEND:20250101T100000'', busy_status := ''BUSY'',
         attendees := [\<lparr>email = ''Daniel.Moreira@autodesk.com'', name = ''Daniel Moreira'', pstatus = ''ACCEPTED''\<rparr>,
           \<lparr>email = ''jane@acme.com'', name = ''Jane Doe'', pstatus = ''ACCEPTED''\<rparr>]\<rparr>)) (event_companies ((new_CalendarEvent :: stakeholder_attendee CalendarEvent)
        \<lparr>summary := ''Customer QBR'', dtstart := ''DTSTART:20250101T090000'',
         dtend := ''DTEND:20250101T100000'', busy_status := ''BUSY'',
         attendees := [\<lparr>email = ''Daniel.Moreira@autodesk.com'', name = ''Daniel Moreira'', pstatus = ''ACCEPTED''\<rparr>,
           \<lparr>email = ''jane@acme.com'', name = ''Jane Doe'', pstatus = ''ACCEPTED''\<rparr>]\<rparr>))) = 1"
proof -
  have h: "is_work_relevant ((new_CalendarEvent :: stakeholder_attendee CalendarEvent)
        \<lparr>summary := ''Customer QBR'', dtstart := ''DTSTART:20250101T090000'',
         dtend := ''DTEND:20250101T100000'', busy_status := ''BUSY'',
         attendees := [\<lparr>email = ''Daniel.Moreira@autodesk.com'', name = ''Daniel Moreira'', pstatus = ''ACCEPTED''\<rparr>,
           \<lparr>email = ''jane@acme.com'', name = ''Jane Doe'', pstatus = ''ACCEPTED''\<rparr>]\<rparr>)"
    by code_simp
  have c: "event_companies ((new_CalendarEvent :: stakeholder_attendee CalendarEvent)
        \<lparr>summary := ''Customer QBR'', dtstart := ''DTSTART:20250101T090000'',
         dtend := ''DTEND:20250101T100000'', busy_status := ''BUSY'',
         attendees := [\<lparr>email = ''Daniel.Moreira@autodesk.com'', name = ''Daniel Moreira'', pstatus = ''ACCEPTED''\<rparr>,
           \<lparr>email = ''jane@acme.com'', name = ''Jane Doe'', pstatus = ''ACCEPTED''\<rparr>]\<rparr>) = [''Autodesk (Internal)'', ''Acme'']"
    by code_simp
  have d: "get_duration_hours ((new_CalendarEvent :: stakeholder_attendee CalendarEvent)
        \<lparr>summary := ''Customer QBR'', dtstart := ''DTSTART:20250101T090000'',
         dtend := ''DTEND:20250101T100000'', busy_status := ''BUSY'',
         attendees := [\<lparr>email = ''Daniel.Moreira@autodesk.com'', name = ''Daniel Moreira'', pstatus = ''ACCEPTED''\<rparr>,
           \<lparr>email = ''jane@acme.com'', name = ''Jane Doe'', pstatus = ''ACCEPTED''\<rparr>]\<rparr>) = 1"
    by code_simp
  from by_company_split[of "[]" "((new_CalendarEvent :: stakeholder_attendee CalendarEvent)
        \<lparr>summary := ''Customer QBR'', dtstart := ''DTSTART:20250101T090000'',
         dtend := ''DTEND:20250101T100000'', busy_status := ''BUSY'',
         attendees := [\<lparr>email = ''Daniel.Moreira@autodesk.com'', name = ''Daniel Moreira'', pstatus = ''ACCEPTED''\<rparr>,
           \<lparr>email = ''jane@acme.com'', name = ''Jane Doe'', pstatus = ''ACCEPTED''\<rparr>]\<rparr>)"] h
  have "sum_list (map (company_share ((new_CalendarEvent :: stakeholder_attendee CalendarEvent)
        \<lparr>summary := ''Customer QBR'', dtstart := ''DTSTART:20250101T090000'',
         dtend := ''DTEND:20250101T100000'', busy_status := ''BUSY'',
         attendees := [\<lparr>email = ''Daniel.Moreira@autodesk.com'', name = ''Daniel Moreira'', pstatus = ''ACCEPTED''\<rparr>,
           \<lparr>email = ''jane@acme.com'', name = ''Jane Doe'', pstatus = ''ACCEPTED''\<rparr>]\<rparr>)) (event_companies ((new_CalendarEvent :: stakeholder_attendee CalendarEvent)
        \<lparr>summary := ''Customer QBR'', dtstart := ''DTSTART:20250101T090000'',
         dtend := ''DTEND:20250101T100000'', busy_status := ''BUSY'',
         attendees := [\<lparr>email = ''Daniel.Moreira@autodesk.com'', name = ''Daniel Moreira'', pstatus = ''ACCEPTED''\<rparr>,
           \<lparr>email = ''jane@acme.com'', name = ''Jane Doe'', pstatus = ''ACCEPTED''\<rparr>]\<rparr>))) = get_duration_hours ((new_CalendarEvent :: stakeholder_attendee CalendarEvent)
        \<lparr>summary := ''Customer QBR'', dtstart := ''DTSTART:20250101T090000'',
         dtend := ''DTEND:20250101T100000'', busy_status := ''BUSY'',
         attendees := [\<lparr>email = ''Daniel.Moreira@autodesk.com'', name = ''Daniel Moreira'', pstatus = ''ACCEPTED''\<rparr>,
           \<lparr>email = ''jane@acme.com'', name = ''Jane Doe'', pstatus = ''ACCEPTED''\<rparr>]\<rparr>)"
    by blast
  with c d show ?thesis by simp
qed

section \<open>The duration of an event\<close>

lemma days_before_year_nat:
  "days_before_year (Suc k) = int k * 365 + int (k div 4) - int (k div 100) + int (k div 400)"
  by (simp add: days_before_year_def Let_def zdiv_int)

lemma mod_100_4: "(n::nat) mod 100 = 0 \<Longrightarrow> n mod 4 = 0"
proof -
  assume "n mod 100 = 0"
  then have "100 dvd n" by (simp add: mod_eq_0_iff_dvd)
  moreover have "(4::nat) dvd 100" by simp
  ultimately have "4 dvd n" by (rule dvd_trans[rotated])
  then show ?thesis by (simp add: mod_eq_0_iff_dvd)
qed

lemma mod_400_100: "(n::nat) mod 400 = 0 \<Longrightarrow> n mod 100 = 0"
proof -
  assume "n mod 400 = 0"
  then have "400 dvd n" by (simp add: mod_eq_0_iff_dvd)
  moreover have "(100::nat) dvd 400" by simp
  ultimately have "100 dvd n" by (rule dvd_trans[rotated])
  then show ?thesis by (simp add: mod_eq_0_iff_dvd)
qed

lemma days_before_year_Suc:
  "days_before_year (Suc (Suc k)) = days_before_year (Suc k) + days_in_year (Suc k)"
  using mod_100_4[of "Suc k"] mod_400_100[of "Suc k"]
  by (auto simp add: days_before_year_nat div_Suc is_leap_def days_in_year_def)

lemma strptime_valid: "strptime s = Some t \<Longrightarrow> valid_datetime t"
  unfolding strptime_def Let_def
  by (simp split: if_splits add: valid_datetime_def) (auto simp: not_less)

lemma days_before_month_Suc:
  assumes "1 \<le> m" "m \<le> 11"
  shows "days_before_month y (Suc m) = days_before_month y m + int (days_in_month y m)"
proof -
  from assms have "m = 1 \<or> m = 2 \<or> m = 3 \<or> m = 4 \<or> m = 5 \<or> m = 6 \<or> m = 7 \<or> m = 8
      \<or> m = 9 \<or> m = 10 \<or> m = (11::nat)" by arith
  then show ?thesis
    by (elim disjE) (simp_all add: days_before_month_def days_in_month_def)
qed

lemma days_before_month_12:
  "days_before_month y 12 + int (days_in_month y 12) = days_in_year y"
  by (simp add: days_before_month_def days_in_month_def days_in_year_def)

lemma days_before_month_mono:
  assumes "1 \<le> m" and "m \<le> m'" and "m' \<le> 12"
  shows "days_before_month y m \<le> days_before_month y m'"
  using assms(2,3)
proof (induction m' rule: dec_induct)
  case base
  show ?case by simp
next
  case (step n)
  from step assms(1) have "days_before_month y (Suc n) = days_before_month y n + int (days_in_month y n)"
    by (intro days_before_month_Suc) auto
  with step show ?case by simp
qed

lemma days_before_month_nonneg:
  assumes "1 \<le> m" "m \<le> 12"
  shows "0 \<le> days_before_month y m"
proof -
  have "days_before_month y 1 = 0" by (simp add: days_before_month_def)
  with days_before_month_mono[of 1 m y] assms show ?thesis by simp
qed

lemma month_end_le_next:
  assumes "1 \<le> m" "m < m'" "m' \<le> 12"
  shows "days_before_month y m + int (days_in_month y m) \<le> days_before_month y m'"
proof -
  from assms have "days_before_month y (Suc m) = days_before_month y m + int (days_in_month y m)"
    by (intro days_before_month_Suc) auto
  moreover from assms have "days_before_month y (Suc m) \<le> days_before_month y m'"
    by (intro days_before_month_mono) auto
  ultimately show ?thesis by simp
qed

lemma month_end_le_year:
  assumes "1 \<le> m" "m \<le> 12"
  shows "days_before_month y m + int (days_in_month y m) \<le> days_in_year y"
proof (cases "m = 12")
  case True
  then show ?thesis using days_before_month_12[of y] by simp
next
  case False
  with assms have "m < 12" by simp
  from month_end_le_next[OF assms(1) this, of y] days_before_month_12[of y]
  show ?thesis by simp
qed

lemma days_in_year_pos: "0 \<le> days_in_year y"
  by (simp add: days_in_year_def)

lemma days_before_year_mono:
  assumes "1 \<le> y" and "y \<le> y'"
  shows "days_before_year y \<le> days_before_year y'"
  using assms(2)
proof (induction y' rule: dec_induct)
  case base
  show ?case by simp
next
  case (step n)
  from assms(1) step(1) obtain k where "n = Suc k" by (cases n) auto
  with days_before_year_Suc[of k] days_in_year_pos[of n] step show ?case by simp
qed

lemma next_year_start:
  assumes "1 \<le> y" and "y < y'"
  shows "days_before_year y + days_in_year y \<le> days_before_year y'"
proof -
  from assms(1) obtain k where k: "y = Suc k" by (cases y) auto
  have "days_before_year (Suc y) = days_before_year y + days_in_year y"
    unfolding k by (rule days_before_year_Suc)
  moreover from assms have "days_before_year (Suc y) \<le> days_before_year y'"
    by (intro days_before_year_mono) auto
  ultimately show ?thesis by simp
qed

lemma toordinal_mono:
  assumes a: "valid_datetime a" and b: "valid_datetime b" and l: "date_less a b"
  shows "toordinal a < toordinal b"
proof -
  from a have a1: "1 \<le> dt_year a" "1 \<le> dt_month a" "dt_month a \<le> 12" "1 \<le> dt_day a"
    "dt_day a \<le> days_in_month (dt_year a) (dt_month a)" by (auto simp: valid_datetime_def)
  from b have b1: "1 \<le> dt_year b" "1 \<le> dt_month b" "dt_month b \<le> 12" "1 \<le> dt_day b"
    "dt_day b \<le> days_in_month (dt_year b) (dt_month b)" by (auto simp: valid_datetime_def)
  have da: "int (dt_day a) \<le> int (days_in_month (dt_year a) (dt_month a))" using a1(5) by simp
  have db: "1 \<le> int (dt_day b)" using b1(4) by simp
  have nb: "0 \<le> days_before_month (dt_year b) (dt_month b)"
    using b1(2,3) by (rule days_before_month_nonneg)
  from l consider
      (year) "dt_year a < dt_year b"
    | (month) "dt_year a = dt_year b" "dt_month a < dt_month b"
    | (day) "dt_year a = dt_year b" "dt_month a = dt_month b" "dt_day a < dt_day b"
    by (auto simp: date_less_def)
  then show ?thesis
  proof cases
    case year
    have "toordinal a \<le> days_before_year (dt_year a) + days_in_year (dt_year a)"
      using month_end_le_year[OF a1(2,3), of "dt_year a"] da by (simp add: toordinal_def)
    also have "\<dots> \<le> days_before_year (dt_year b)"
      using a1(1) year by (rule next_year_start)
    also have "\<dots> < toordinal b" using nb db by (simp add: toordinal_def)
    finally show ?thesis .
  next
    case month
    have "toordinal a \<le> days_before_year (dt_year a)
        + (days_before_month (dt_year a) (dt_month a) + int (days_in_month (dt_year a) (dt_month a)))"
      using da by (simp add: toordinal_def)
    also have "\<dots> \<le> days_before_year (dt_year a) + days_before_month (dt_year a) (dt_month b)"
      using month_end_le_next[OF a1(2) month(2) b1(3), of "dt_year a"] by simp
    also have "\<dots> < toordinal b" using db month(1) by (simp add: toordinal_def)
    finally show ?thesis .
  next
    case day
    then show ?thesis by (simp add: toordinal_def)
  qed
qed

lemma seconds_of_day_bounds:
  "valid_datetime t \<Longrightarrow> 0 \<le> seconds_of_day t \<and> seconds_of_day t \<le> 86399"
  by (auto simp: valid_datetime_def seconds_of_day_def)

lemma seconds_of_day_less:
  assumes "valid_datetime a" "valid_datetime b"
  shows "(seconds_of_day a < seconds_of_day b) = time_less a b"
proof -
  from assms have "dt_minute a \<le> 59" "dt_second a \<le> 59" "dt_minute b \<le> 59" "dt_second b \<le> 59"
    by (auto simp: valid_datetime_def)
  then show ?thesis
    unfolding seconds_of_day_def time_less_def by auto
qed

lemma datetime_less_split:
  "datetime_less a b =
     (date_less a b \<or>
      dt_year a = dt_year b \<and> dt_month a = dt_month b \<and> dt_day a = dt_day b \<and> time_less a b)"
  by (auto simp: datetime_less_def date_less_def time_less_def)

lemma date_trichotomy:
  "date_less a b \<or> date_less b a
   \<or> (dt_year a = dt_year b \<and> dt_month a = dt_month b \<and> dt_day a = dt_day b)"
  by (auto simp: date_less_def)

lemma sub_seconds_negative:
  assumes a: "valid_datetime a" and b: "valid_datetime b"
  shows "(datetime_sub_seconds a b < 0) = datetime_less a b"
proof -
  note sa = seconds_of_day_bounds[OF a] and sb = seconds_of_day_bounds[OF b]
  from date_trichotomy[of a b] consider
      (lt) "date_less a b" | (gt) "date_less b a"
    | (eq) "dt_year a = dt_year b" "dt_month a = dt_month b" "dt_day a = dt_day b"
    by blast
  then show ?thesis
  proof cases
    case lt
    from toordinal_mono[OF a b lt] have "toordinal a - toordinal b \<le> - 1" by simp
    then have "(toordinal a - toordinal b) * 86400 \<le> - 86400" by simp
    with sa sb have "datetime_sub_seconds a b < 0" by (simp add: datetime_sub_seconds_def)
    with lt show ?thesis by (simp add: datetime_less_split)
  next
    case gt
    from toordinal_mono[OF b a gt] have "1 \<le> toordinal a - toordinal b" by simp
    then have "86400 \<le> (toordinal a - toordinal b) * 86400" by simp
    with sa sb have "\<not> datetime_sub_seconds a b < 0" by (simp add: datetime_sub_seconds_def)
    moreover from gt have "\<not> datetime_less a b"
      by (auto simp: datetime_less_split date_less_def)
    ultimately show ?thesis by simp
  next
    case eq
    then have "toordinal a = toordinal b" by (simp add: toordinal_def)
    then have "(datetime_sub_seconds a b < 0) = (seconds_of_day a < seconds_of_day b)"
      by (simp add: datetime_sub_seconds_def)
    also have "\<dots> = time_less a b" using a b by (rule seconds_of_day_less)
    also have "\<dots> = datetime_less a b" using eq by (simp add: datetime_less_split date_less_def)
    finally show ?thesis .
  qed
qed

lemma duration_as_timestamps:
  "get_duration_hours e =
     (case timestamp_of (dtstart e) of
        None \<Rightarrow> 0
      | Some s \<Rightarrow> (case timestamp_of (dtend e) of
                     None \<Rightarrow> 0
                   | Some t \<Rightarrow> of_int (datetime_sub_seconds t s) / 3600))"
  by (simp add: get_duration_hours_def timestamp_of_def Let_def split: option.splits)

lemma timestamp_valid: "timestamp_of s = Some t \<Longrightarrow> valid_datetime t"
  by (auto simp: timestamp_of_def split: option.splits dest: strptime_valid)

text \<open>
  Claim C1, as stated: the duration is never negative. The source returns the
  difference of the two timestamps as it is: an event that ends one hour before it
  starts has the duration \<open>-1\<close>.
\<close>

theorem duration_non_negative_counterexample:
  "get_duration_hours ((new_CalendarEvent :: unit CalendarEvent)
        \<lparr>dtstart := ''DTSTART;TZID=Europe/London:20250101T100000'',
         dtend := ''DTEND;TZID=Europe/London:20250101T090000''\<rparr>) = - 1"
  by code_simp

text \<open>
  Claim C1, amended. \<open>get_duration_hours\<close> is total and returns a number for every
  event. When the start or the end string holds no token of eight digits, \<open>T\<close> and
  six digits after its last \<open>TZID=\<close>, or holds one that is no valid timestamp, the
  result is 0. When both strings carry a timestamp, the result is the end minus the
  start, in seconds, divided by 3600; it is negative exactly when the end is
  earlier than the start, and non-negative otherwise.
\<close>

theorem duration_signed:
  "(timestamp_of (dtstart e) = None \<or> timestamp_of (dtend e) = None
      \<longrightarrow> get_duration_hours e = 0)
   \<and> (timestamp_of (dtstart e) = Some s \<and> timestamp_of (dtend e) = Some t
      \<longrightarrow> get_duration_hours e = of_int (datetime_sub_seconds t s) / 3600
          \<and> (get_duration_hours e < 0) = datetime_less t s)"
proof -
  have 1: "get_duration_hours e = 0"
    if "timestamp_of (dtstart e) = None \<or> timestamp_of (dtend e) = None"
    using that by (auto simp: duration_as_timestamps split: option.splits)
  have 2: "get_duration_hours e = of_int (datetime_sub_seconds t s) / 3600
          \<and> (get_duration_hours e < 0) = datetime_less t s"
    if st: "timestamp_of (dtstart e) = Some s \<and> timestamp_of (dtend e) = Some t"
  proof -
    from st have v: "valid_datetime s" "valid_datetime t" by (auto dest: timestamp_valid)
    from st have d: "get_duration_hours e = of_int (datetime_sub_seconds t s) / 3600"
      by (simp add: duration_as_timestamps)
    have "(get_duration_hours e < 0) = (datetime_sub_seconds t s < 0)"
      unfolding d by (simp add: divide_less_0_iff)
    also have "\<dots> = datetime_less t s" using v(2) v(1) by (rule sub_seconds_negative)
    finally show ?thesis using d by blast
  qed
  from 1 2 show ?thesis by blast
qed

theorem duration_signed_witness:
  "get_duration_hours ((new_CalendarEvent :: unit CalendarEvent)
        \<lparr>dtstart := ''DTSTART;TZID=Europe/London:20250228T233000'',
         dtend := ''DTEND;TZID=Europe/London:20250301T010000''\<rparr>) = 3 / 2
   \<and> \<not> datetime_less
        \<lparr>dt_year = 2025, dt_month = 3, dt_day = 1, dt_hour = 1, dt_minute = 0, dt_second = 0\<rparr>
        \<lparr>dt_year = 2025, dt_month = 2, dt_day = 28, dt_hour = 23, dt_minute = 30, dt_second = 0\<rparr>
   \<and> get_duration_hours ((new_CalendarEvent :: unit CalendarEvent)
        \<lparr>dtstart := ''DTSTART:20250229T090000'', dtend := ''DTEND:20250301T100000''\<rparr>) = 0"
proof -
  let ?e = "((new_CalendarEvent :: unit CalendarEvent)
        \<lparr>dtstart := ''DTSTART;TZID=Europe/London:20250228T233000'',
         dtend := ''DTEND;TZID=Europe/London:20250301T010000''\<rparr>)"
  let ?s = "\<lparr>dt_year = 2025, dt_month = 2, dt_day = 28, dt_hour = 23, dt_minute = 30, dt_second = 0\<rparr>"
  let ?t = "\<lparr>dt_year = 2025, dt_month = 3, dt_day = 1, dt_hour = 1, dt_minute = 0, dt_second = 0\<rparr>"
  let ?bad = "((new_CalendarEvent :: unit CalendarEvent)
        \<lparr>dtstart := ''DTSTART:20250229T090000'', dtend := ''DTEND:20250301T100000''\<rparr>)"
  have h1: "timestamp_of (dtstart ?e) = Some ?s \<and> timestamp_of (dtend ?e) = Some ?t"
    by code_simp
  have h2: "of_int (datetime_sub_seconds ?t ?s) / 3600 = (3 / 2 :: rat)"
    by code_simp
  have h3: "timestamp_of (dtstart ?bad) = None \<or> timestamp_of (dtend ?bad) = None"
    by code_simp
  from duration_signed[of ?e ?s ?t] h1
  have d: "get_duration_hours ?e = of_int (datetime_sub_seconds ?t ?s) / 3600"
    and l: "(get_duration_hours ?e < 0) = datetime_less ?t ?s"
    by blast+
  from d h2 have a: "get_duration_hours ?e = 3 / 2" by (simp only:)
  then have "\<not> get_duration_hours ?e < 0" by simp
  with l have n: "\<not> datetime_less ?t ?s" by blast
  from duration_signed[of ?bad] h3
  have b: "get_duration_hours ?bad = 0"
    by blast
  from a n b show ?thesis by blast
qed

end
